theory Spec2Isabelle
  imports Complex_Main "HOL-Library.Word"
begin

section \<open>JavaScript strings\<close>

text \<open>
  A JavaScript string is a sequence of UTF-16 code units; \<open>length\<close>, \<open>slice\<close>,
  \<open>trim\<close> and the regular expression engine (without the \<open>u\<close> flag) all work on code
  units. A string is therefore a list of 16-bit words.
\<close>

type_synonym jschar = "16 word"
type_synonym jsstring = "jschar list"

text \<open>
  The class \<open>\s\<close> of a regular expression and the characters removed by
  \<open>String.prototype.trim\<close> are the same set: WhiteSpace and LineTerminator of ECMAScript
  (TAB, LF, VT, FF, CR, SP, NBSP, U+1680, U+2000..U+200A, LS, PS, U+202F, U+205F, U+3000,
  U+FEFF).
\<close>

definition isWhiteSpace :: "jschar \<Rightarrow> bool" where
  "isWhiteSpace c \<longleftrightarrow>
     c = 0x09 \<or> c = 0x0A \<or> c = 0x0B \<or> c = 0x0C \<or> c = 0x0D \<or> c = 0x20 \<or> c = 0xA0 \<or>
     c = 0x1680 \<or> (0x2000 \<le> c \<and> c \<le> 0x200A) \<or> c = 0x2028 \<or> c = 0x2029 \<or>
     c = 0x202F \<or> c = 0x205F \<or> c = 0x3000 \<or> c = 0xFEFF"

text \<open>The character class \<open>[.!?]\<close> of the lookbehind.\<close>

definition isTerminator :: "jschar \<Rightarrow> bool" where
  "isTerminator c \<longleftrightarrow> c = 0x2E \<or> c = 0x21 \<or> c = 0x3F"

definition space :: jschar where
  "space = 0x20"

text \<open>An ASCII literal as a JavaScript string.\<close>

definition js :: "string \<Rightarrow> jsstring" where
  "js s = map (\<lambda>c. of_nat (of_char c)) s"

text \<open>\<open>s.trim()\<close>: white space removed from both ends.\<close>

definition trim :: "jsstring \<Rightarrow> jsstring" where
  "trim s = rev (dropWhile isWhiteSpace (rev (dropWhile isWhiteSpace s)))"

text \<open>
  \<open>s.slice(0, end)\<close> for an integral \<open>end\<close>: a negative \<open>end\<close> counts from the end of
  the string, and the result is clamped to the string.
\<close>

definition slice0 :: "jsstring \<Rightarrow> int \<Rightarrow> jsstring" where
  "slice0 s end =
     (let len = int (length s);
          to = (if end < 0 then max (len + end) 0 else min end len)
      in take (nat to) s)"

text \<open>
  \<open>text.split(/(?<=[.!?])\s+/)\<close>. The matcher is tried at every position \<open>q\<close> from left
  to right. It succeeds at \<open>q\<close> when the code unit before \<open>q\<close> is one of \<open>. ! ?\<close> (the
  lookbehind, recorded in the flag \<open>lb\<close>) and the code unit at \<open>q\<close> is white space; \<open>\s+\<close>
  is greedy, so the separator is the whole run of white space from \<open>q\<close>. The piece
  collected so far is emitted and the scan resumes after the separator, where the code unit
  before the position is white space, so the lookbehind fails there. At the end of the
  string the last piece is emitted, also when it is empty.
\<close>

function splitSentences :: "bool \<Rightarrow> jsstring \<Rightarrow> jsstring \<Rightarrow> jsstring list" where
  "splitSentences lb piece [] = [piece]"
| "splitSentences lb piece (c # cs) =
     (if lb \<and> isWhiteSpace c
      then piece # splitSentences False [] (dropWhile isWhiteSpace cs)
      else splitSentences (isTerminator c) (piece @ [c]) cs)"
  by pat_completeness auto
termination
  by (relation "measure (\<lambda>(lb, piece, rest). length rest)")
     (auto simp: length_dropWhile_le le_imp_less_Suc)

definition jsSplit :: "jsstring \<Rightarrow> jsstring list" where
  "jsSplit text = splitSentences False [] text"

section \<open>The chunker\<close>

text \<open>
  \<open>maxChars\<close> is a JavaScript number; the pipeline passes the constant 4000. The model
  takes an integer, which covers every integral number (positive, zero or negative).
\<close>

text \<open>
  The body of \<open>for (const sentence of sentences)\<close> in \<open>splitText\<close> of the pdf-parse
  variant of the task: the state is the pair of \<open>chunks\<close> and \<open>current\<close>.
\<close>

fun packSentences ::
  "int \<Rightarrow> jsstring list \<Rightarrow> jsstring \<Rightarrow> jsstring list \<Rightarrow> jsstring list \<times> jsstring" where
  "packSentences maxChars chunks current [] = (chunks, current)"
| "packSentences maxChars chunks current (sentence # rest) =
     (if trim sentence = [] then packSentences maxChars chunks current rest
      else if int (length current) + int (length sentence) + 1 \<le> maxChars
      then packSentences maxChars chunks (current @ sentence @ [space]) rest
      else packSentences maxChars
             (if trim current \<noteq> [] then chunks @ [trim current] else chunks)
             (sentence @ [space]) rest)"

definition splitText :: "jsstring \<Rightarrow> int \<Rightarrow> jsstring list" where
  "splitText text maxChars =
     (let sentences = jsSplit text;
          (chunks, current) = packSentences maxChars [] [] sentences;
          chunks' = (if trim current \<noteq> [] then chunks @ [trim current] else chunks)
      in if length chunks' > 0 then chunks' else [slice0 text maxChars])"

text \<open>
  \<open>splitText\<close> of the regex-extraction variant of the task, translated from that file on
  its own: the loop and the function after it.
\<close>

fun packSentencesRx ::
  "int \<Rightarrow> jsstring list \<Rightarrow> jsstring \<Rightarrow> jsstring list \<Rightarrow> jsstring list \<times> jsstring" where
  "packSentencesRx maxChars chunks current [] = (chunks, current)"
| "packSentencesRx maxChars chunks current (sentence # rest) =
     (if trim sentence = [] then packSentencesRx maxChars chunks current rest
      else if int (length current) + int (length sentence) + 1 \<le> maxChars
      then packSentencesRx maxChars chunks (current @ sentence @ [space]) rest
      else packSentencesRx maxChars
             (if trim current \<noteq> [] then chunks @ [trim current] else chunks)
             (sentence @ [space]) rest)"

definition splitTextRx :: "jsstring \<Rightarrow> int \<Rightarrow> jsstring list" where
  "splitTextRx text maxChars =
     (let sentences = jsSplit text;
          (chunks, current) = packSentencesRx maxChars [] [] sentences;
          chunks' = (if trim current \<noteq> [] then chunks @ [trim current] else chunks)
      in if length chunks' > 0 then chunks' else [slice0 text maxChars])"


section \<open>Whitespace normalisation\<close>

text \<open>\<open>segments.join(" ")\<close>.\<close>

fun joinSpaces :: "jsstring list \<Rightarrow> jsstring" where
  "joinSpaces [] = []"
| "joinSpaces [s] = s"
| "joinSpaces (s # t # ts) = s @ [space] @ joinSpaces (t # ts)"

text \<open>
  Collapsing every run of white space to a single space, \<open>s.replace(/\s+/g, " ")\<close>: the
  flag says whether the previous code unit belonged to a run that has already produced its
  space.
\<close>

fun collapseWs :: "bool \<Rightarrow> jsstring \<Rightarrow> jsstring" where
  "collapseWs inRun [] = []"
| "collapseWs inRun (c # cs) =
     (if isWhiteSpace c then (if inRun then collapseWs True cs else space # collapseWs True cs)
      else c # collapseWs False cs)"

text \<open>The whitespace-normalised form of a text: runs collapsed, then trimmed.\<close>

definition normalizeWs :: "jsstring \<Rightarrow> jsstring" where
  "normalizeWs t = trim (collapseWs False t)"

text \<open>
  The words of a text, its maximal runs of code units that are not white space, in order;
  \<open>w\<close> is the word being read.
\<close>

fun tokensAcc :: "jsstring \<Rightarrow> jsstring \<Rightarrow> jsstring list" where
  "tokensAcc w [] = (if w = [] then [] else [w])"
| "tokensAcc w (c # cs) =
     (if isWhiteSpace c then (if w = [] then [] else [w]) @ tokensAcc [] cs
      else tokensAcc (w @ [c]) cs)"

definition tokens :: "jsstring \<Rightarrow> jsstring list" where
  "tokens t = tokensAcc [] t"

definition trimEnd :: "jsstring \<Rightarrow> jsstring" where
  "trimEnd s = rev (dropWhile isWhiteSpace (rev s))"

section \<open>Values exchanged with the collaborators\<close>

type_synonym bytes = "8 word list"

text \<open>
  A thrown value: an \<open>Error\<close> with its message, or any other value, kept as the string
  \<open>String(value)\<close> that the \<open>catch\<close> block computes from it.
\<close>

datatype thrown = ErrorObj jsstring | NonError jsstring

text \<open>
  The values that \<open>replicate.run\<close> may resolve to, as far as the task tells them apart:
  a string, an object with its properties, a \<open>Uint8Array\<close> of bytes (an object that has
  no \<open>url\<close>), \<open>null\<close> and \<open>undefined\<close>. Numbers, arrays and streams are left out.
\<close>

datatype jsvalue =
    JString jsstring
  | JObject "(jsstring \<times> jsvalue) list"
  | JBytes bytes
  | JNull
  | JUndefined

text \<open>Decimal digits of a non-negative integer, as a template literal prints it.\<close>

function showNat :: "nat \<Rightarrow> jsstring" where
  "showNat n = (if n < 10 then [of_nat (48 + n)] else showNat (n div 10) @ [of_nat (48 + n mod 10)])"
  by pat_completeness auto
termination
  by (relation "measure id") auto

declare showNat.simps [simp del]

fun joinComma :: "jsstring list \<Rightarrow> jsstring" where
  "joinComma [] = []"
| "joinComma [s] = s"
| "joinComma (s # t # ts) = s @ [0x2C] @ joinComma (t # ts)"

text \<open>
  \<open>String(v)\<close>: a string is itself, a plain object prints as \<open>[object Object]\<close>, a
  \<open>Uint8Array\<close> as its elements in decimal joined by commas.
\<close>

fun jsToString :: "jsvalue \<Rightarrow> jsstring" where
  "jsToString (JString s) = s"
| "jsToString (JObject props) = js ''[object Object]''"
| "jsToString (JBytes bs) = joinComma (map (\<lambda>b. showNat (unat b)) bs)"
| "jsToString JNull = js ''null''"
| "jsToString JUndefined = js ''undefined''"

text \<open>A value used as a condition: \<open>null\<close> and the empty string are falsy.\<close>

definition truthyString :: "jsstring option \<Rightarrow> jsstring option" where
  "truthyString v = (case v of None \<Rightarrow> None | Some s \<Rightarrow> if s = [] then None else Some s)"

datatype jobStatus = Processing | Ready | Failed

text \<open>
  The fields an update of the job row may carry. \<open>updateJob\<close> adds \<open>updated_at\<close>, the
  current time, to every update; the clock is not modelled.
\<close>

record jobUpdate =
  status :: "jobStatus option"
  progress :: "int option"
  error :: "jsstring option"
  audio_storage_path :: "jsstring option"

definition noUpdate :: jobUpdate where
  "noUpdate = \<lparr>status = None, progress = None, error = None, audio_storage_path = None\<rparr>"

record response =
  ok :: bool
  arrayBuffer :: "thrown + bytes"

record payload =
  jobId :: jsstring
  pdfStoragePath :: jsstring
  voiceStoragePath :: "jsstring option"
  videoId :: "jsstring option"
  startTime :: rat
  endTime :: rat

record taskResult =
  success :: bool
  resultJobId :: jsstring
  outputPath :: jsstring

text \<open>
  What the task does to the outside world, in order: the job-row updates, the logger calls
  with their message and metadata, and the calls to storage, pdf-parse, Replicate and
  \<open>fetch\<close>. A call of the model is recorded with the model, \<open>gen_text\<close> and
  \<open>ref_audio\<close>; the other fields of its input are constants (\<open>ref_text\<close> empty,
  \<open>model_type\<close> F5-TTS, \<open>remove_silence\<close> true).
\<close>

datatype event =
    UpdateJob jsstring jobUpdate
  | LoggerInfo jsstring "(jsstring \<times> jsstring) list"
  | LoggerWarn jsstring "(jsstring \<times> jsstring) list"
  | LoggerError jsstring "(jsstring \<times> jsstring) list"
  | StorageDownload jsstring
  | PdfGetText bytes
  | ReplicateRun jsstring jsstring jsstring
  | Fetch jsstring
  | StorageUpload jsstring bytes

text \<open>
  The collaborators, as the answers they give. The Supabase client reports a failure in
  the \<open>error\<close> field of its result (\<open>Some message\<close>) and does not throw; pdf-parse,
  Replicate and \<open>fetch\<close> may throw. The answer to an update depends on how many updates
  came before it, the answers of Replicate and \<open>fetch\<close> on the index of the chunk.
  \<open>F5TTS_MODEL\<close> is the environment variable. \<open>fround\<close> is the rounding of a real
  result to a double that every arithmetic operation on numbers performs.
\<close>

record env =
  recorderUpdate :: "nat \<Rightarrow> jobUpdate \<Rightarrow> jsstring option"
  storageDownload :: "jsstring \<Rightarrow> bytes option \<times> jsstring option"
  pdfGetText :: "bytes \<Rightarrow> thrown + jsstring"
  storageGetPublicUrl :: "jsstring \<Rightarrow> jsstring"
  replicateRun :: "nat \<Rightarrow> jsstring \<Rightarrow> jsstring \<Rightarrow> thrown + jsvalue"
  fetch :: "nat \<Rightarrow> jsstring \<Rightarrow> thrown + response"
  storageUpload :: "jsstring \<Rightarrow> bytes \<Rightarrow> jsstring option"
  F5TTS_MODEL :: "jsstring option"
  fround :: "rat \<Rightarrow> rat"

section \<open>The task\<close>

fun isUpdateJob :: "event \<Rightarrow> bool" where
  "isUpdateJob (UpdateJob j u) = True"
| "isUpdateJob e = False"

text \<open>\<open>updateJob\<close>: the update is sent; an error in the result is logged, nothing is thrown.\<close>

definition updateJob :: "env \<Rightarrow> jsstring \<Rightarrow> jobUpdate \<Rightarrow> event list \<Rightarrow> event list" where
  "updateJob e jid updates tr =
     (let k = length (filter isUpdateJob tr);
          tr = tr @ [UpdateJob jid updates]
      in case recorderUpdate e k updates of
           None \<Rightarrow> tr
         | Some message \<Rightarrow>
             tr @ [LoggerWarn (js ''Failed to update job status'')
                     [(js ''jobId'', jid), (js ''error'', message)]])"

text \<open>Steps 1 and 2 of the \<open>try\<close> block: mark the job as processing, download the PDF, extract its text.\<close>

definition stepExtractText :: "env \<Rightarrow> payload \<Rightarrow> event list \<Rightarrow> event list \<times> (thrown + jsstring)" where
  "stepExtractText e p tr =
     (let tr = updateJob e (jobId p) (noUpdate\<lparr>status := Some Processing, progress := Some 5\<rparr>) tr;
          tr = tr @ [LoggerInfo (js ''Job started'') [(js ''jobId'', jobId p)]];
          tr = updateJob e (jobId p) (noUpdate\<lparr>progress := Some 10\<rparr>) tr;
          tr = tr @ [LoggerInfo (js ''Downloading PDF...'') []];
          tr = tr @ [StorageDownload (pdfStoragePath p)];
          (pdfData, pdfError) = storageDownload e (pdfStoragePath p)
      in case pdfError of
           Some message \<Rightarrow> (tr, Inl (ErrorObj (js ''Failed to download PDF: '' @ message)))
         | None \<Rightarrow>
            (case pdfData of
               None \<Rightarrow> (tr, Inl (ErrorObj (js ''Failed to download PDF: undefined'')))
             | Some pdfBuffer \<Rightarrow>
                (let tr = tr @ [PdfGetText pdfBuffer]
                 in case pdfGetText e pdfBuffer of
                      Inl t \<Rightarrow> (tr, Inl t)
                    | Inr text \<Rightarrow>
                        if trim text = []
                        then (tr, Inl (ErrorObj
                               (js ''Could not extract text from PDF. Is it a scanned document?'')))
                        else
                          (let tr = tr @ [LoggerInfo (js ''Extracted '' @ showNat (length text) @
                                            js '' characters from PDF'') []];
                               tr = updateJob e (jobId p) (noUpdate\<lparr>progress := Some 25\<rparr>) tr
                           in (tr, Inr text)))))"

text \<open>Step 3: the URL of the voice sample.\<close>

definition stepVoiceSample :: "env \<Rightarrow> payload \<Rightarrow> event list \<Rightarrow> event list \<times> (thrown + jsstring)" where
  "stepVoiceSample e p tr =
     (case truthyString (voiceStoragePath p) of
        Some path \<Rightarrow>
          (let voiceFileUrl = storageGetPublicUrl e path;
               tr = tr @ [LoggerInfo (js ''Voice sample URL obtained'')
                            [(js ''voiceFileUrl'', voiceFileUrl)]];
               tr = updateJob e (jobId p) (noUpdate\<lparr>progress := Some 35\<rparr>) tr
           in (tr, Inr voiceFileUrl))
      | None \<Rightarrow>
          (case truthyString (videoId p) of
             Some v \<Rightarrow> (tr, Inl (ErrorObj (js
               ''YouTube audio extraction requires yt-dlp. Please upload a voice sample directly for now.'')))
           | None \<Rightarrow> (tr, Inl (ErrorObj (js ''No voice sample provided'')))))"

text \<open>\<open>35 + Math.floor(((i + 1) / chunks.length) * 50)\<close>: the division and the product are rounded.\<close>

definition chunkProgress :: "(rat \<Rightarrow> rat) \<Rightarrow> nat \<Rightarrow> nat \<Rightarrow> int" where
  "chunkProgress fl i n = 35 + \<lfloor>fl (fl (of_nat (i + 1) / of_nat n) * 50)\<rfloor>"

text \<open>
  The URL taken from the output of the model: the output itself when it is a string, its
  \<open>url\<close> property when it is an object that has one, and \<open>String(output)\<close> otherwise.
  \<open>fetch\<close> converts what it is given to a string.
\<close>

definition audioUrlOf :: "jsvalue \<Rightarrow> jsstring" where
  "audioUrlOf output =
     (case output of
        JString s \<Rightarrow> s
      | JObject props \<Rightarrow>
          (case map_of props (js ''url'') of
             Some v \<Rightarrow> jsToString v
           | None \<Rightarrow> jsToString output)
      | _ \<Rightarrow> jsToString output)"

text \<open>The body of the loop up to \<open>audioSegments.push\<close>: one chunk is synthesised and its audio downloaded.\<close>

definition synthesizeChunk ::
  "env \<Rightarrow> jsstring \<Rightarrow> jsstring \<Rightarrow> nat \<Rightarrow> jsstring \<Rightarrow> event list \<Rightarrow> event list \<times> (thrown + bytes)" where
  "synthesizeChunk e f5ttsModel voiceFileUrl i chunk tr =
     (let tr = tr @ [ReplicateRun f5ttsModel chunk voiceFileUrl]
      in case replicateRun e i chunk voiceFileUrl of
           Inl t \<Rightarrow> (tr, Inl t)
         | Inr output \<Rightarrow>
            (let audioUrl = audioUrlOf output;
                 tr = tr @ [Fetch audioUrl]
             in case fetch e i audioUrl of
                  Inl t \<Rightarrow> (tr, Inl t)
                | Inr audioRes \<Rightarrow>
                    if \<not> ok audioRes
                    then (tr, Inl (ErrorObj
                           (js ''Failed to download generated audio for chunk '' @ showNat (i + 1))))
                    else (case arrayBuffer audioRes of
                            Inl t \<Rightarrow> (tr, Inl t)
                          | Inr audioBuffer \<Rightarrow> (tr, Inr audioBuffer))))"

text \<open>
  The loop \<open>for (let i = 0; i < chunks.length; i++)\<close>: \<open>n\<close> is \<open>chunks.length\<close>, the
  list is the chunks from index \<open>i\<close> on.
\<close>

fun synthLoop ::
  "env \<Rightarrow> jsstring \<Rightarrow> jsstring \<Rightarrow> jsstring \<Rightarrow> nat \<Rightarrow> nat \<Rightarrow> jsstring list \<Rightarrow> bytes list \<Rightarrow>
   event list \<Rightarrow> event list \<times> (thrown + bytes list)" where
  "synthLoop e jid f5ttsModel voiceFileUrl n i [] audioSegments tr = (tr, Inr audioSegments)"
| "synthLoop e jid f5ttsModel voiceFileUrl n i (chunk # rest) audioSegments tr =
     (let tr = tr @ [LoggerInfo (js ''Processing chunk '' @ showNat (i + 1) @ js ''/'' @ showNat n @
                       js '' ('' @ showNat (length chunk) @ js '' chars)'') []]
      in case synthesizeChunk e f5ttsModel voiceFileUrl i chunk tr of
           (tr, Inl t) \<Rightarrow> (tr, Inl t)
         | (tr, Inr audioBuffer) \<Rightarrow>
             synthLoop e jid f5ttsModel voiceFileUrl n (i + 1) rest (audioSegments @ [audioBuffer])
               (updateJob e jid (noUpdate\<lparr>progress := Some (chunkProgress (fround e) i n)\<rparr>) tr))"

text \<open>Step 4: split the text into chunks and generate the audio of each.\<close>

definition stepSynthesize ::
  "env \<Rightarrow> payload \<Rightarrow> jsstring \<Rightarrow> jsstring \<Rightarrow> event list \<Rightarrow> event list \<times> (thrown + bytes list)" where
  "stepSynthesize e p text voiceFileUrl tr =
     (let maxChunkChars = 4000;
          chunks = splitText text maxChunkChars;
          tr = tr @ [LoggerInfo (js ''Processing '' @ showNat (length chunks) @ js '' text chunks'') []];
          f5ttsModel = (case truthyString (F5TTS_MODEL e) of
                          Some m \<Rightarrow> m
                        | None \<Rightarrow> js
            ''x-lance/f5-tts:87faf6dd7a692dd82043f662e76369cab126a2cf1937e25a9d41e0b834fd230e'')
      in synthLoop e (jobId p) f5ttsModel voiceFileUrl (length chunks) 0 chunks [] tr)"

text \<open>Steps 5 and 6: concatenate the audio, upload it, mark the job as complete.\<close>

definition stepPublish ::
  "env \<Rightarrow> payload \<Rightarrow> bytes list \<Rightarrow> event list \<Rightarrow> event list \<times> (thrown + taskResult)" where
  "stepPublish e p audioSegments tr =
     (let tr = updateJob e (jobId p) (noUpdate\<lparr>progress := Some 90\<rparr>) tr;
          tr = tr @ [LoggerInfo (js ''Concatenating audio segments...'') []];
          fullAudio = concat audioSegments;
          outPath = js ''output/'' @ jobId p @ js ''/audiobook.wav'';
          tr = tr @ [StorageUpload outPath fullAudio]
      in case storageUpload e outPath fullAudio of
           Some message \<Rightarrow> (tr, Inl (ErrorObj (js ''Failed to upload audiobook: '' @ message)))
         | None \<Rightarrow>
            (let tr = updateJob e (jobId p)
                        (noUpdate\<lparr>status := Some Ready, progress := Some 100,
                                  audio_storage_path := Some outPath\<rparr>) tr;
                 tr = tr @ [LoggerInfo (js ''Audiobook generation complete!'')
                              [(js ''jobId'', jobId p), (js ''outputPath'', outPath)]]
             in (tr, Inr \<lparr>success = True, resultJobId = jobId p, outputPath = outPath\<rparr>)))"

text \<open>The \<open>try\<close> block: the steps in order, each one skipped once something was thrown.\<close>

definition tryBlock :: "env \<Rightarrow> payload \<Rightarrow> event list \<times> (thrown + taskResult)" where
  "tryBlock e p =
     (case stepExtractText e p [] of
        (tr, Inl t) \<Rightarrow> (tr, Inl t)
      | (tr, Inr text) \<Rightarrow>
         (case stepVoiceSample e p tr of
            (tr, Inl t) \<Rightarrow> (tr, Inl t)
          | (tr, Inr voiceFileUrl) \<Rightarrow>
             (case stepSynthesize e p text voiceFileUrl tr of
                (tr, Inl t) \<Rightarrow> (tr, Inl t)
              | (tr, Inr audioSegments) \<Rightarrow> stepPublish e p audioSegments tr)))"

text \<open>
  The \<open>run\<close> function of the task: the \<open>try\<close> block, and the \<open>catch\<close> block that logs the
  error, writes it to the job and throws it again. \<open>Inl\<close> is a run that throws, \<open>Inr\<close> a
  run that returns. The retry that the task runner makes after a throw is a new run.
\<close>

definition generateAudiobook :: "env \<Rightarrow> payload \<Rightarrow> event list \<times> (thrown + taskResult)" where
  "generateAudiobook e p =
     (case tryBlock e p of
        (tr, Inr r) \<Rightarrow> (tr, Inr r)
      | (tr, Inl err) \<Rightarrow>
         (let errorMessage = (case err of ErrorObj m \<Rightarrow> m | NonError s \<Rightarrow> s);
              tr = tr @ [LoggerError (js ''Audiobook generation failed'')
                           [(js ''jobId'', jobId p), (js ''error'', errorMessage)]];
              tr = updateJob e (jobId p)
                     (noUpdate\<lparr>status := Some Failed, error := Some errorMessage\<rparr>) tr
          in (tr, Inl err)))"

section \<open>Rounding to a double\<close>

text \<open>
  The rounding that JavaScript numbers perform, to the nearest double with ties to the even
  significand, for the magnitudes in the normal range of binary64 (overflow and subnormal
  numbers are left out; the numbers of the task lie between \<open>2 powi (-32)\<close> and 100). It is the
  \<open>fround\<close> of the example collaborators; the claims are proved for every rounding with the
  properties they name.
\<close>

text \<open>The position of the leading bit of a positive integer.\<close>

function log2nat :: "nat \<Rightarrow> nat" where
  "log2nat n = (if n < 2 then 0 else Suc (log2nat (n div 2)))"
  by pat_completeness auto
termination
  by (relation "measure id") auto

declare log2nat.simps [simp del]

text \<open>The binary exponent \<open>e\<close> of a positive rational: \<open>2 powi e \<le> x < 2 powi (e + 1)\<close>.\<close>

definition ilog2 :: "rat \<Rightarrow> int" where
  "ilog2 x =
     (let (a, b) = quotient_of x;
          d = int (log2nat (nat a)) - int (log2nat (nat b))
      in if 2 powi d \<le> x then d else d - 1)"

text \<open>The nearest integer, a tie going to the even one.\<close>

definition roundHalfEven :: "rat \<Rightarrow> int" where
  "roundHalfEven y =
     (let f = \<lfloor>y\<rfloor>; r = y - of_int f
      in if r < 1 / 2 then f else if 1 / 2 < r then f + 1 else if even f then f else f + 1)"

text \<open>A significand of 53 bits: the quantum in the binade of \<open>x\<close> is \<open>2 powi (e - 52)\<close>.\<close>

definition roundDouble :: "rat \<Rightarrow> rat" where
  "roundDouble x =
     (if x = 0 then 0
      else (let q = 2 powi (ilog2 \<bar>x\<bar> - 52)
            in sgn x * (of_int (roundHalfEven (\<bar>x\<bar> / q)) * q)))"

section \<open>Observations of a run\<close>

text \<open>The updates sent to the job row, in order.\<close>

fun jobWrites :: "event list \<Rightarrow> jobUpdate list" where
  "jobWrites [] = []"
| "jobWrites (UpdateJob j u # es) = u # jobWrites es"
| "jobWrites (ev # es) = jobWrites es"

text \<open>The progress values among them.\<close>

fun progressValues :: "jobUpdate list \<Rightarrow> int list" where
  "progressValues [] = []"
| "progressValues (u # us) =
     (case progress u of Some v \<Rightarrow> v # progressValues us | None \<Rightarrow> progressValues us)"

definition progressWrites :: "event list \<Rightarrow> int list" where
  "progressWrites tr = progressValues (jobWrites tr)"

text \<open>The calls of the model, in order: model, text of the chunk, URL of the voice sample.\<close>

fun replicateCalls :: "event list \<Rightarrow> (jsstring \<times> jsstring \<times> jsstring) list" where
  "replicateCalls [] = []"
| "replicateCalls (ReplicateRun m c u # es) = (m, c, u) # replicateCalls es"
| "replicateCalls (ev # es) = replicateCalls es"

text \<open>The uploads to storage, in order: path and content.\<close>

fun uploads :: "event list \<Rightarrow> (jsstring \<times> bytes) list" where
  "uploads [] = []"
| "uploads (StorageUpload path b # es) = (path, b) # uploads es"
| "uploads (ev # es) = uploads es"

text \<open>The URLs fetched, in order.\<close>

fun fetches :: "event list \<Rightarrow> jsstring list" where
  "fetches [] = []"
| "fetches (Fetch u # es) = u # fetches es"
| "fetches (ev # es) = fetches es"

fun isRecorderWarning :: "event \<Rightarrow> bool" where
  "isRecorderWarning (LoggerWarn m meta) = True"
| "isRecorderWarning ev = False"

text \<open>The text that step 2 hands to the later steps, when it does not throw.\<close>

definition extractedText :: "env \<Rightarrow> payload \<Rightarrow> jsstring option" where
  "extractedText e p =
     (case storageDownload e (pdfStoragePath p) of
        (Some pdfBuffer, None) \<Rightarrow>
          (case pdfGetText e pdfBuffer of
             Inr text \<Rightarrow> if trim text = [] then None else Some text
           | Inl t \<Rightarrow> None)
      | _ \<Rightarrow> None)"

text \<open>The model that step 4 calls.\<close>

definition f5ttsModelOf :: "env \<Rightarrow> jsstring" where
  "f5ttsModelOf e =
     (case truthyString (F5TTS_MODEL e) of
        Some m \<Rightarrow> m
      | None \<Rightarrow> js
          ''x-lance/f5-tts:87faf6dd7a692dd82043f662e76369cab126a2cf1937e25a9d41e0b834fd230e'')"

text \<open>What the synthesis of chunk \<open>i\<close> yields: the audio, or what it throws.\<close>

definition segmentAudio :: "env \<Rightarrow> jsstring \<Rightarrow> nat \<Rightarrow> jsstring \<Rightarrow> thrown + bytes" where
  "segmentAudio e voiceFileUrl i chunk = snd (synthesizeChunk e (f5ttsModelOf e) voiceFileUrl i chunk [])"

text \<open>
  The URLs fetched for chunk \<open>i\<close>: none when the model throws, else the URL taken from
  its output.
\<close>

definition chunkFetches :: "env \<Rightarrow> jsstring \<Rightarrow> nat \<Rightarrow> jsstring \<Rightarrow> jsstring list" where
  "chunkFetches e voiceFileUrl i chunk =
     (case replicateRun e i chunk voiceFileUrl of
        Inl t \<Rightarrow> []
      | Inr output \<Rightarrow> [audioUrlOf output])"

text \<open>The message that the \<open>catch\<close> block takes from what was thrown.\<close>

definition messageOf :: "thrown \<Rightarrow> jsstring" where
  "messageOf err = (case err of ErrorObj m \<Rightarrow> m | NonError s \<Rightarrow> s)"


section \<open>Example inputs\<close>

text \<open>
  A text of three chunks: 3995 letters and a full stop, twice, then a short sentence. Two
  of the long sentences do not fit in one chunk of 4000, and the short one does not fit
  after the second.
\<close>

definition longText :: jsstring where
  "longText = replicate 3995 0x61 @ js ''. '' @ replicate 3995 0x62 @ js ''. End.''"

text \<open>
  Collaborators that all succeed: the PDF holds the long text, the model answers with a URL,
  and the audio fetched for chunk \<open>i\<close> is the one byte that is the digit \<open>i\<close>. Numbers are
  rounded to doubles.
\<close>

definition envOk :: env where
  "envOk = \<lparr>recorderUpdate = (\<lambda>k u. None),
            storageDownload = (\<lambda>path. (Some [0x25, 0x50, 0x44, 0x46], None)),
            pdfGetText = (\<lambda>b. Inr longText),
            storageGetPublicUrl = (\<lambda>path. js ''https://storage.test/'' @ path),
            replicateRun = (\<lambda>i chunk url. Inr (JString (js ''https://replicate.test/out''))),
            fetch = (\<lambda>i url. Inr \<lparr>ok = True, arrayBuffer = Inr [of_nat (48 + i)]\<rparr>),
            storageUpload = (\<lambda>path b. None),
            F5TTS_MODEL = Some (js ''f5''),
            fround = roundDouble\<rparr>"

text \<open>The model fails on the second chunk.\<close>

definition envChunkFails :: env where
  "envChunkFails = envOk\<lparr>replicateRun := (\<lambda>i chunk url.
      if i = 1 then Inl (ErrorObj (js ''Prediction failed''))
      else Inr (JString (js ''https://replicate.test/out'')))\<rparr>"


text \<open>The model answers with an object that has a \<open>url\<close>.\<close>

definition envObject :: env where
  "envObject = envOk\<lparr>replicateRun := (\<lambda>i chunk url.
      Inr (JObject [(js ''url'', JString (js ''https://replicate.test/out''))]))\<rparr>"

text \<open>
  The model answers with the four bytes \<open>RIFF\<close>; \<open>fetch\<close> throws on a string that is not a
  URL, as the \<open>fetch\<close> of Node does.
\<close>

definition envBytes :: env where
  "envBytes = envOk\<lparr>replicateRun := (\<lambda>i chunk url. Inr (JBytes [0x52, 0x49, 0x46, 0x46])),
      fetch := (\<lambda>i url. if take 8 url = js ''https://''
                          then Inr \<lparr>ok = True, arrayBuffer = Inr [0]\<rparr>
                          else Inl (ErrorObj (js ''Failed to parse URL from '' @ url)))\<rparr>"

text \<open>The PDF is a scan: the text extracted from it is blank.\<close>

definition envScanned :: env where
  "envScanned = envOk\<lparr>pdfGetText := (\<lambda>b. Inr (js ''  ''))\<rparr>"

text \<open>The storage refuses the upload.\<close>

definition envUploadFails :: env where
  "envUploadFails = envOk\<lparr>storageUpload := (\<lambda>path b. Some (js ''Bucket not found''))\<rparr>"

text \<open>The audio cannot be downloaded: the response to every \<open>fetch\<close> is not \<open>ok\<close>.\<close>

definition envNotOk :: env where
  "envNotOk = envOk\<lparr>fetch := (\<lambda>i url. Inr \<lparr>ok = False, arrayBuffer = Inr []\<rparr>)\<rparr>"

text \<open>A job with an uploaded voice sample, and a job with a video id only.\<close>

definition payloadUpload :: payload where
  "payloadUpload = \<lparr>jobId = js ''job-1'', pdfStoragePath = js ''pdfs/book.pdf'',
                    voiceStoragePath = Some (js ''voices/v.wav''), videoId = None,
                    startTime = 0, endTime = 0\<rparr>"

definition payloadVideo :: payload where
  "payloadVideo = \<lparr>jobId = js ''job-2'', pdfStoragePath = js ''pdfs/book.pdf'',
                   voiceStoragePath = None, videoId = Some (js ''dQw4w9WgXcQ''),
                   startTime = 0, endTime = 30\<rparr>"

section \<open>Properties of the chunker\<close>

lemma isTerminator_not_ws: "isTerminator c \<Longrightarrow> \<not> isWhiteSpace c"
  by (auto simp: isTerminator_def isWhiteSpace_def)

lemma isWhiteSpace_space: "isWhiteSpace space"
  by (simp add: isWhiteSpace_def space_def)

lemma trim_Nil [simp]: "trim [] = []"
  by (simp add: trim_def)

lemma trim_Nil_iff: "trim s = [] \<longleftrightarrow> (\<forall>c\<in>set s. isWhiteSpace c)"
proof -
  have "trim s = [] \<longleftrightarrow> (\<forall>c\<in>set (dropWhile isWhiteSpace s). isWhiteSpace c)"
    by (simp add: trim_def dropWhile_eq_Nil_conv)
  also have "\<dots> \<longleftrightarrow> dropWhile isWhiteSpace s = []"
    by (metis dropWhile_eq_Nil_conv dropWhile_idem)
  finally show ?thesis by (simp add: dropWhile_eq_Nil_conv)
qed

lemma length_trim_le: "length (trim s) \<le> length s"
  unfolding trim_def
  by (metis length_dropWhile_le le_trans length_rev)

lemma trim_snoc_ws: "isWhiteSpace c \<Longrightarrow> trim (s @ [c]) = trim s"
proof (cases "\<forall>x\<in>set s. isWhiteSpace x")
  case True
  assume "isWhiteSpace c"
  with True have "trim (s @ [c]) = []" "trim s = []" by (simp_all add: trim_Nil_iff)
  then show ?thesis by simp
next
  case False
  assume "isWhiteSpace c"
  from False have "dropWhile isWhiteSpace (s @ [c]) = dropWhile isWhiteSpace s @ [c]"
    by auto
  then show ?thesis using \<open>isWhiteSpace c\<close> by (simp add: trim_def)
qed

lemma splitSentences_blank:
  "\<forall>c\<in>set rest. isWhiteSpace c \<Longrightarrow> splitSentences False piece rest = [piece @ rest]"
proof (induction rest arbitrary: piece)
  case Nil then show ?case by simp
next
  case (Cons c cs)
  then have "\<not> isTerminator c" using isTerminator_not_ws by auto
  with Cons show ?case by simp
qed

lemma packSentences_blank:
  "\<forall>s\<in>set ss. trim s = [] \<Longrightarrow> packSentences n chunks cur ss = (chunks, cur)"
  by (induction ss) auto

lemma splitText_blank:
  assumes "\<forall>c\<in>set text. isWhiteSpace c"
  shows "splitText text n = [slice0 text n]"
proof -
  have "jsSplit text = [text]" using assms by (simp add: jsSplit_def splitSentences_blank)
  moreover have "trim text = []" using assms by (simp add: trim_Nil_iff)
  ultimately show ?thesis by (simp add: splitText_def)
qed

lemma splitText_not_Nil: "splitText text n \<noteq> []"
  by (auto simp: splitText_def Let_def split: prod.splits)

lemma slice0_pos: "0 \<le> n \<Longrightarrow> slice0 s n = take (nat n) s"
  by (auto simp: slice0_def Let_def min_def)

lemma tokens_Nil [simp]: "tokens [] = []"
  by (simp add: tokens_def)

lemma tokensAcc_Nil_iff: "tokensAcc w a = [] \<longleftrightarrow> w = [] \<and> (\<forall>c\<in>set a. isWhiteSpace c)"
  by (induction a arbitrary: w) auto

lemma tokens_Nil_iff: "tokens a = [] \<longleftrightarrow> trim a = []"
  by (simp add: tokens_def tokensAcc_Nil_iff trim_Nil_iff)

lemma tokensAcc_ws_mid:
  "isWhiteSpace c \<Longrightarrow> tokensAcc w (a @ c # b) = tokensAcc w a @ tokensAcc [] b"
  by (induction a arbitrary: w) auto

lemma tokens_ws_mid: "isWhiteSpace c \<Longrightarrow> tokens (a @ c # b) = tokens a @ tokens b"
  by (simp add: tokens_def tokensAcc_ws_mid)

lemma tokens_dropWhile: "tokens (dropWhile isWhiteSpace a) = tokens a"
  by (induction a) (auto simp: tokens_def)

lemma tokens_snoc_ws: "isWhiteSpace c \<Longrightarrow> tokens (a @ [c]) = tokens a"
  using tokens_ws_mid [of c a "[]"] by simp

lemma tokens_append_blank: "\<forall>c\<in>set r. isWhiteSpace c \<Longrightarrow> tokens (a @ r) = tokens a"
proof (induction r rule: rev_induct)
  case Nil then show ?case by simp
next
  case (snoc x xs)
  then have "tokens ((a @ xs) @ [x]) = tokens (a @ xs)" by (intro tokens_snoc_ws) simp
  with snoc show ?case by simp
qed

lemma tokens_dropWhile_rev: "tokens (rev (dropWhile isWhiteSpace (rev a))) = tokens a"
proof -
  have "a = rev (dropWhile isWhiteSpace (rev a)) @ rev (takeWhile isWhiteSpace (rev a))"
    by (metis rev_append rev_rev_ident takeWhile_dropWhile_id)
  moreover have "\<forall>c\<in>set (rev (takeWhile isWhiteSpace (rev a))). isWhiteSpace c"
    by (auto dest: set_takeWhileD)
  ultimately show ?thesis by (metis tokens_append_blank)
qed

lemma tokens_trim: "tokens (trim a) = tokens a"
  by (simp add: trim_def tokens_dropWhile_rev tokens_dropWhile)

lemma tokens_blank: "trim a = [] \<Longrightarrow> tokens a = []"
  by (simp add: tokens_Nil_iff)

lemma tokens_joinSpaces: "tokens (joinSpaces segs) = concat (map tokens segs)"
proof (induction segs rule: joinSpaces.induct)
  case 1 then show ?case by simp
next
  case (2 s) then show ?case by simp
next
  case (3 s t ts)
  then show ?case using tokens_ws_mid [OF isWhiteSpace_space, of s "joinSpaces (t # ts)"] by simp
qed

lemma tokens_splitSentences:
  "concat (map tokens (splitSentences lb piece rest)) = tokens (piece @ rest)"
proof (induction lb piece rest rule: splitSentences.induct)
  case (1 lb piece) then show ?case by simp
next
  case (2 lb piece c cs)
  show ?case
  proof (cases "lb \<and> isWhiteSpace c")
    case True
    then have "tokens (piece @ c # cs) = tokens piece @ tokens cs" by (simp add: tokens_ws_mid)
    with True 2(1) show ?thesis by (simp add: tokens_dropWhile)
  next
    case False
    then have "splitSentences lb piece (c # cs) = splitSentences (isTerminator c) (piece @ [c]) cs"
      by auto
    with 2(2) [OF False] show ?thesis by simp
  qed
qed

lemma tokens_jsSplit: "concat (map tokens (jsSplit text)) = tokens text"
  by (simp add: jsSplit_def tokens_splitSentences)

lemma tokens_packSentences:
  assumes "packSentences n chunks cur ss = (chunks', cur')"
    and "cur = [] \<or> (\<exists>c. cur = c @ [space])"
  shows "concat (map tokens chunks') @ tokens cur' =
           concat (map tokens chunks) @ tokens cur @ concat (map tokens ss)"
  using assms
proof (induction ss arbitrary: chunks cur)
  case Nil then show ?case by simp
next
  case (Cons s ss)
  have app: "tokens (cur @ s @ [space]) = tokens cur @ tokens s"
  proof -
    from Cons.prems(2) show ?thesis
    proof
      assume "cur = []" then show ?thesis by (simp add: tokens_snoc_ws isWhiteSpace_space)
    next
      assume "\<exists>c. cur = c @ [space]"
      then obtain c where c: "cur = c @ [space]" by blast
      have "tokens (c @ space # (s @ [space])) = tokens c @ tokens (s @ [space])"
        by (rule tokens_ws_mid [OF isWhiteSpace_space])
      then show ?thesis using c
        by (simp add: tokens_snoc_ws isWhiteSpace_space)
    qed
  qed
  show ?case
  proof (cases "trim s = []")
    case True
    with Cons show ?thesis by (simp add: tokens_blank)
  next
    case nb: False
    show ?thesis
    proof (cases "int (length cur) + int (length s) + 1 \<le> n")
      case True
      with nb Cons.prems have "packSentences n chunks (cur @ s @ [space]) ss = (chunks', cur')" by simp
      from Cons.IH [OF this] app show ?thesis by auto
    next
      case False
      let ?ch = "if trim cur \<noteq> [] then chunks @ [trim cur] else chunks"
      from False nb Cons.prems have "packSentences n ?ch (s @ [space]) ss = (chunks', cur')" by simp
      from Cons.IH [OF this] have
        "concat (map tokens chunks') @ tokens cur' =
           concat (map tokens ?ch) @ tokens (s @ [space]) @ concat (map tokens ss)" by auto
      moreover have "concat (map tokens ?ch) = concat (map tokens chunks) @ tokens cur"
        by (auto simp: tokens_trim tokens_blank)
      ultimately show ?thesis by (simp add: tokens_snoc_ws isWhiteSpace_space)
    qed
  qed
qed

lemma tokens_splitText:
  assumes "trim text \<noteq> []"
  shows "concat (map tokens (splitText text n)) = tokens text"
proof -
  obtain chunks cur where p: "packSentences n [] [] (jsSplit text) = (chunks, cur)"
    by (cases "packSentences n [] [] (jsSplit text)")
  let ?ch = "if trim cur \<noteq> [] then chunks @ [trim cur] else chunks"
  from tokens_packSentences [OF p] have "concat (map tokens chunks) @ tokens cur = tokens text"
    by (simp add: tokens_jsSplit)
  moreover have "concat (map tokens ?ch) = concat (map tokens chunks) @ tokens cur"
    by (auto simp: tokens_trim tokens_blank)
  ultimately have t: "concat (map tokens ?ch) = tokens text" by simp
  have "tokens text \<noteq> []" using assms by (simp add: tokens_Nil_iff)
  with t have "?ch \<noteq> []" by auto
  with p t show ?thesis by (auto simp: splitText_def)
qed

lemma tokensAcc_nonempty: "w \<noteq> [] \<Longrightarrow> tokensAcc w t \<noteq> []"
  by (simp add: tokensAcc_Nil_iff)

lemma joinSpaces_Cons: "ts \<noteq> [] \<Longrightarrow> joinSpaces (w # ts) = w @ space # joinSpaces ts"
  by (cases ts) auto

lemma trimEnd_snoc: "trimEnd (s @ [c]) = (if isWhiteSpace c then trimEnd s else s @ [c])"
  by (simp add: trimEnd_def)

lemma trimEnd_Nil [simp]: "trimEnd [] = []"
  by (simp add: trimEnd_def)

lemma trimEnd_append: "trimEnd b \<noteq> [] \<Longrightarrow> trimEnd (a @ b) = a @ trimEnd b"
proof (induction b rule: rev_induct)
  case Nil then show ?case by simp
next
  case (snoc x xs)
  show ?case
  proof (cases "isWhiteSpace x")
    case True
    with snoc have "trimEnd xs \<noteq> []" by (simp add: trimEnd_snoc)
    with snoc True show ?thesis using trimEnd_snoc [of "a @ xs" x] by (simp add: trimEnd_snoc)
  next
    case False
    then show ?thesis using trimEnd_snoc [of "a @ xs" x] by (simp add: trimEnd_snoc)
  qed
qed

lemma trimEnd_nonblank: "\<exists>c\<in>set s. \<not> isWhiteSpace c \<Longrightarrow> trimEnd s \<noteq> []"
  by (auto simp: trimEnd_def)

lemma trimEnd_collapse:
  "w \<noteq> [] \<Longrightarrow> \<not> isWhiteSpace (last w) \<Longrightarrow>
     trimEnd (w @ collapseWs False t) = joinSpaces (tokensAcc w t) \<and>
     trimEnd (w @ space # collapseWs True t) = joinSpaces (w # tokensAcc [] t)"
proof (induction t arbitrary: w)
  case Nil
  then have "trimEnd w = w" by (cases w rule: rev_cases) (auto simp: trimEnd_snoc)
  moreover have "trimEnd (w @ [space]) = trimEnd w"
    by (simp add: trimEnd_snoc isWhiteSpace_space)
  ultimately show ?case using Nil by simp
next
  case (Cons c cs)
  show ?case
  proof (cases "isWhiteSpace c")
    case True
    with Cons.IH [OF Cons.prems] Cons.prems show ?thesis by simp
  next
    case False
    have IH1: "trimEnd ((w @ [c]) @ collapseWs False cs) = joinSpaces (tokensAcc (w @ [c]) cs)"
      using Cons.IH [of "w @ [c]"] False by simp
    have IH2: "trimEnd ([c] @ collapseWs False cs) = joinSpaces (tokensAcc [c] cs)"
      using Cons.IH [of "[c]"] False by simp
    have ne: "trimEnd ([c] @ collapseWs False cs) \<noteq> []"
      using False by (intro trimEnd_nonblank) auto
    have "trimEnd (w @ space # c # collapseWs False cs) =
            (w @ [space]) @ trimEnd ([c] @ collapseWs False cs)"
      using trimEnd_append [OF ne, of "w @ [space]"] by simp
    also have "\<dots> = w @ space # joinSpaces (tokensAcc [c] cs)" using IH2 by simp
    also have "\<dots> = joinSpaces (w # tokensAcc [c] cs)"
      by (simp add: joinSpaces_Cons tokensAcc_nonempty)
    finally show ?thesis using False IH1 by simp
  qed
qed

lemma dropWhile_collapseWs:
  "dropWhile isWhiteSpace (collapseWs b t) = collapseWs False (dropWhile isWhiteSpace t)"
  by (induction t arbitrary: b) (auto simp: isWhiteSpace_space)

lemma normalizeWs_tokens: "normalizeWs t = joinSpaces (tokens t)"
proof -
  let ?t = "dropWhile isWhiteSpace t"
  have n: "normalizeWs t = trimEnd (collapseWs False ?t)"
    by (simp add: normalizeWs_def trim_def trimEnd_def dropWhile_collapseWs)
  show ?thesis
  proof (cases ?t)
    case Nil
    then have "tokens ?t = []" using tokens_Nil by metis
    then have "tokens t = []" by (simp only: tokens_dropWhile)
    with n Nil show ?thesis by simp
  next
    case (Cons d ds)
    then have d: "\<not> isWhiteSpace d" by (metis hd_dropWhile list.sel(1) list.distinct(1))
    then have "trimEnd ([d] @ collapseWs False ds) = joinSpaces (tokensAcc [d] ds)"
      using trimEnd_collapse [of "[d]" ds] by simp
    moreover have "tokens ?t = tokensAcc [d] ds" using Cons d by (simp add: tokens_def)
    then have "tokens t = tokensAcc [d] ds" by (simp only: tokens_dropWhile)
    ultimately show ?thesis using n Cons d by simp
  qed
qed

lemma packSentences_bounded:
  assumes "packSentences n chunks cur ss = (chunks', cur')"
    and "\<forall>seg\<in>set chunks. int (length seg) \<le> n \<or> (\<exists>s\<in>S. n < int (length s) \<and> seg = trim s)"
    and "int (length (trim cur)) \<le> n \<or> (\<exists>s\<in>S. n < int (length s) \<and> trim cur = trim s)"
    and "set ss \<subseteq> S"
  shows "(\<forall>seg\<in>set chunks'. int (length seg) \<le> n \<or> (\<exists>s\<in>S. n < int (length s) \<and> seg = trim s)) \<and>
         (int (length (trim cur')) \<le> n \<or> (\<exists>s\<in>S. n < int (length s) \<and> trim cur' = trim s))"
  using assms
proof (induction ss arbitrary: chunks cur)
  case Nil then show ?case by simp
next
  case (Cons s ss)
  show ?case
  proof (cases "trim s = []")
    case True
    with Cons.prems have "packSentences n chunks cur ss = (chunks', cur')" by simp
    from Cons.IH [OF this Cons.prems(2,3)] Cons.prems(4) show ?thesis by simp
  next
    case nb: False
    show ?thesis
    proof (cases "int (length cur) + int (length s) + 1 \<le> n")
      case True
      with nb Cons.prems have p: "packSentences n chunks (cur @ s @ [space]) ss = (chunks', cur')"
        by simp
      have "int (length (trim (cur @ s @ [space]))) \<le> n"
        using True length_trim_le [of "cur @ s @ [space]"] by simp
      then show ?thesis using Cons.IH [OF p Cons.prems(2)] Cons.prems(4) by simp
    next
      case False
      let ?ch = "if trim cur \<noteq> [] then chunks @ [trim cur] else chunks"
      from False nb Cons.prems have p: "packSentences n ?ch (s @ [space]) ss = (chunks', cur')"
        by simp
      have a: "\<forall>seg\<in>set ?ch. int (length seg) \<le> n \<or> (\<exists>s\<in>S. n < int (length s) \<and> seg = trim s)"
        using Cons.prems(2,3) by auto
      have b: "int (length (trim (s @ [space]))) \<le> n \<or>
                 (\<exists>s'\<in>S. n < int (length s') \<and> trim (s @ [space]) = trim s')"
      proof (cases "n < int (length s)")
        case True
        moreover have "s \<in> S" using Cons.prems(4) by simp
        ultimately show ?thesis by (auto simp: trim_snoc_ws isWhiteSpace_space)
      next
        case False
        then show ?thesis using length_trim_le [of s] by (simp add: trim_snoc_ws isWhiteSpace_space)
      qed
      show ?thesis using Cons.IH [OF p a b] Cons.prems(4) by simp
    qed
  qed
qed

lemma packSentences_keeps:
  assumes "packSentences n chunks cur ss = (chunks', cur')"
  shows "set chunks \<subseteq> set chunks' \<and>
         (trim cur \<noteq> [] \<and> n < int (length cur) \<longrightarrow> cur' = cur \<or> trim cur \<in> set chunks')"
  using assms
proof (induction ss arbitrary: chunks cur)
  case Nil then show ?case by simp
next
  case (Cons s ss)
  show ?case
  proof (cases "trim s = []")
    case True
    with Cons show ?thesis by simp
  next
    case nb: False
    show ?thesis
    proof (cases "int (length cur) + int (length s) + 1 \<le> n")
      case True
      with nb Cons.prems have p: "packSentences n chunks (cur @ s @ [space]) ss = (chunks', cur')"
        by simp
      from Cons.IH [OF p] True show ?thesis by auto
    next
      case False
      let ?ch = "if trim cur \<noteq> [] then chunks @ [trim cur] else chunks"
      from False nb Cons.prems have p: "packSentences n ?ch (s @ [space]) ss = (chunks', cur')"
        by simp
      from Cons.IH [OF p] show ?thesis by auto
    qed
  qed
qed

lemma packSentences_oversized:
  assumes "packSentences n chunks cur ss = (chunks', cur')"
    and "s \<in> set ss" and "trim s \<noteq> []" and "n < int (length s)"
  shows "trim s \<in> set chunks' \<or> cur' = s @ [space]"
  using assms
proof (induction ss arbitrary: chunks cur)
  case Nil then show ?case by simp
next
  case (Cons x xs)
  show ?case
  proof (cases "s \<in> set xs")
    case True
    have "\<exists>ch cu. packSentences n ch cu xs = (chunks', cur')"
      using Cons.prems(1) by (auto split: if_splits)
    then obtain ch cu where "packSentences n ch cu xs = (chunks', cur')" by blast
    from Cons.IH [OF this True Cons.prems(3,4)] show ?thesis .
  next
    case False
    with Cons.prems have x: "x = s" by simp
    let ?ch = "if trim cur \<noteq> [] then chunks @ [trim cur] else chunks"
    from x Cons.prems have p: "packSentences n ?ch (s @ [space]) xs = (chunks', cur')"
      by simp
    have "trim (s @ [space]) \<noteq> []" "n < int (length (s @ [space]))"
      using Cons.prems by (simp_all add: trim_snoc_ws isWhiteSpace_space)
    with packSentences_keeps [OF p] show ?thesis
      by (auto simp: trim_snoc_ws isWhiteSpace_space)
  qed
qed

lemma packSentencesRx_eq: "packSentencesRx n chunks cur ss = packSentences n chunks cur ss"
  by (induction ss arbitrary: chunks cur) auto

section \<open>Properties of the steps\<close>

lemma jobWrites_append: "jobWrites (a @ b) = jobWrites a @ jobWrites b"
  by (induction a rule: jobWrites.induct) auto

lemma progressValues_append: "progressValues (a @ b) = progressValues a @ progressValues b"
  by (induction a) (auto split: option.splits)

lemma progressWrites_append: "progressWrites (a @ b) = progressWrites a @ progressWrites b"
  by (simp add: progressWrites_def jobWrites_append progressValues_append)

lemma replicateCalls_append: "replicateCalls (a @ b) = replicateCalls a @ replicateCalls b"
  by (induction a rule: replicateCalls.induct) auto

lemma uploads_append: "uploads (a @ b) = uploads a @ uploads b"
  by (induction a rule: uploads.induct) auto

lemma updateJob_cases:
  "updateJob e j u tr = tr @ [UpdateJob j u] \<or>
   (\<exists>m. updateJob e j u tr = tr @ [UpdateJob j u, LoggerWarn (js ''Failed to update job status'')
                     [(js ''jobId'', j), (js ''error'', m)]])"
  by (auto simp: updateJob_def Let_def split: option.splits)

lemma jobWrites_updateJob [simp]: "jobWrites (updateJob e j u tr) = jobWrites tr @ [u]"
  using updateJob_cases [of e j u tr] by (auto simp: jobWrites_append)

lemma replicateCalls_updateJob [simp]: "replicateCalls (updateJob e j u tr) = replicateCalls tr"
  using updateJob_cases [of e j u tr] by (auto simp: replicateCalls_append)

lemma uploads_updateJob [simp]: "uploads (updateJob e j u tr) = uploads tr"
  using updateJob_cases [of e j u tr] by (auto simp: uploads_append)

lemma progressWrites_updateJob [simp]:
  "progressWrites (updateJob e j u tr) =
     progressWrites tr @ (case progress u of Some v \<Rightarrow> [v] | None \<Rightarrow> [])"
  by (simp add: progressWrites_def progressValues_append split: option.splits)

lemma stepExtractText_result:
  "snd (stepExtractText e p tr) = Inr text \<longleftrightarrow> extractedText e p = Some text"
  by (auto simp: stepExtractText_def extractedText_def Let_def split: prod.splits option.splits sum.splits)

lemma stepExtractText_writes:
  "jobWrites (fst (stepExtractText e p tr)) =
     jobWrites tr @ [noUpdate\<lparr>status := Some Processing, progress := Some 5\<rparr>,
                     noUpdate\<lparr>progress := Some 10\<rparr>] @
       (case snd (stepExtractText e p tr) of Inr text \<Rightarrow> [noUpdate\<lparr>progress := Some 25\<rparr>] | Inl t \<Rightarrow> [])"
  by (auto simp: stepExtractText_def Let_def jobWrites_append split: prod.splits option.splits sum.splits)

lemma stepExtractText_calls:
  "replicateCalls (fst (stepExtractText e p tr)) = replicateCalls tr \<and>
   uploads (fst (stepExtractText e p tr)) = uploads tr"
  by (auto simp: stepExtractText_def Let_def replicateCalls_append uploads_append
      split: prod.splits option.splits sum.splits)

lemma stepVoiceSample_result:
  "snd (stepVoiceSample e p tr) =
     (case truthyString (voiceStoragePath p) of
        Some path \<Rightarrow> Inr (storageGetPublicUrl e path)
      | None \<Rightarrow>
          Inl (ErrorObj (if truthyString (videoId p) = None then js ''No voice sample provided''
             else js ''YouTube audio extraction requires yt-dlp. Please upload a voice sample directly for now.'')))"
  by (auto simp: stepVoiceSample_def Let_def split: option.splits)

lemma stepVoiceSample_writes:
  "jobWrites (fst (stepVoiceSample e p tr)) =
     jobWrites tr @ (case truthyString (voiceStoragePath p) of
                       Some path \<Rightarrow> [noUpdate\<lparr>progress := Some 35\<rparr>] | None \<Rightarrow> [])"
  by (auto simp: stepVoiceSample_def Let_def jobWrites_append split: option.splits)

lemma stepVoiceSample_calls:
  "replicateCalls (fst (stepVoiceSample e p tr)) = replicateCalls tr \<and>
   uploads (fst (stepVoiceSample e p tr)) = uploads tr"
  by (auto simp: stepVoiceSample_def Let_def replicateCalls_append uploads_append split: option.splits)

lemma synthesizeChunk_result:
  "snd (synthesizeChunk e m url i chunk tr) = segmentAudio e url i chunk"
  by (auto simp: synthesizeChunk_def segmentAudio_def Let_def split: sum.splits)

lemma synthesizeChunk_trace:
  "jobWrites (fst (synthesizeChunk e m url i chunk tr)) = jobWrites tr \<and>
   uploads (fst (synthesizeChunk e m url i chunk tr)) = uploads tr \<and>
   replicateCalls (fst (synthesizeChunk e m url i chunk tr)) = replicateCalls tr @ [(m, chunk, url)]"
  by (auto simp: synthesizeChunk_def Let_def jobWrites_append uploads_append replicateCalls_append
      split: sum.splits)

lemma synthLoop_success:
  assumes "synthLoop e jid m url n i rest segs tr = (tr', Inr segs')"
  shows "\<exists>outs. segs' = segs @ outs \<and> length outs = length rest \<and>
           (\<forall>j<length rest. segmentAudio e url (i + j) (rest ! j) = Inr (outs ! j)) \<and>
           replicateCalls tr' = replicateCalls tr @ map (\<lambda>c. (m, c, url)) rest \<and>
           jobWrites tr' = jobWrites tr @
             map (\<lambda>j. noUpdate\<lparr>progress := Some (chunkProgress (fround e) (i + j) n)\<rparr>) [0..<length rest] \<and>
           uploads tr' = uploads tr"
  using assms
proof (induction rest arbitrary: i segs tr)
  case Nil
  then show ?case by simp
next
  case (Cons chunk rest)
  let ?tr0 = "tr @ [LoggerInfo (js ''Processing chunk '' @ showNat (i + 1) @ js ''/'' @ showNat n @
                       js '' ('' @ showNat (length chunk) @ js '' chars)'') []]"
  obtain tr1 r1 where s: "synthesizeChunk e m url i chunk ?tr0 = (tr1, r1)"
    by (cases "synthesizeChunk e m url i chunk ?tr0")
  from s have r1: "r1 = segmentAudio e url i chunk"
    using synthesizeChunk_result [of e m url i chunk ?tr0] by simp
  from s have t1: "jobWrites tr1 = jobWrites tr" "uploads tr1 = uploads tr"
      "replicateCalls tr1 = replicateCalls tr @ [(m, chunk, url)]"
    using synthesizeChunk_trace [of e m url i chunk ?tr0]
    by (simp_all add: jobWrites_append uploads_append replicateCalls_append)
  from Cons.prems s obtain b where b: "r1 = Inr b"
    and loop: "synthLoop e jid m url n (i + 1) rest (segs @ [b])
                 (updateJob e jid (noUpdate\<lparr>progress := Some (chunkProgress (fround e) i n)\<rparr>) tr1)
               = (tr', Inr segs')"
    by (cases r1) (auto simp: Let_def)
  from Cons.IH [OF loop] obtain outs where o:
    "segs' = (segs @ [b]) @ outs" "length outs = length rest"
    "\<forall>j<length rest. segmentAudio e url (i + 1 + j) (rest ! j) = Inr (outs ! j)"
    "replicateCalls tr' = replicateCalls tr1 @ map (\<lambda>c. (m, c, url)) rest"
    "jobWrites tr' = (jobWrites tr1 @ [noUpdate\<lparr>progress := Some (chunkProgress (fround e) i n)\<rparr>]) @
       map (\<lambda>j. noUpdate\<lparr>progress := Some (chunkProgress (fround e) (i + 1 + j) n)\<rparr>) [0..<length rest]"
    "uploads tr' = uploads tr1"
    by auto
  have idx: "\<forall>j<length (chunk # rest). segmentAudio e url (i + j) ((chunk # rest) ! j) = Inr ((b # outs) ! j)"
  proof (intro allI impI)
    fix j assume "j < length (chunk # rest)"
    then show "segmentAudio e url (i + j) ((chunk # rest) ! j) = Inr ((b # outs) ! j)"
      using o(3) r1 b by (cases j) auto
  qed
  have wr: "map (\<lambda>j. noUpdate\<lparr>progress := Some (chunkProgress (fround e) (i + j) n)\<rparr>) [0..<length (chunk # rest)]
        = noUpdate\<lparr>progress := Some (chunkProgress (fround e) i n)\<rparr> #
          map (\<lambda>j. noUpdate\<lparr>progress := Some (chunkProgress (fround e) (i + 1 + j) n)\<rparr>) [0..<length rest]"
    by (simp add: upt_conv_Cons map_Suc_upt [symmetric] del: upt_Suc)
  show ?case
    apply (rule exI [of _ "b # outs"])
    using o t1 idx wr by simp
qed

lemma synthLoop_failure:
  assumes "synthLoop e jid m url n i rest segs tr = (tr', Inl t)"
  shows "\<exists>k<length rest.
           (\<forall>j<k. \<exists>b. segmentAudio e url (i + j) (rest ! j) = Inr b) \<and>
           segmentAudio e url (i + k) (rest ! k) = Inl t \<and>
           replicateCalls tr' = replicateCalls tr @ map (\<lambda>c. (m, c, url)) (take (Suc k) rest) \<and>
           jobWrites tr' = jobWrites tr @
             map (\<lambda>j. noUpdate\<lparr>progress := Some (chunkProgress (fround e) (i + j) n)\<rparr>) [0..<k] \<and>
           uploads tr' = uploads tr"
  using assms
proof (induction rest arbitrary: i segs tr)
  case Nil
  then show ?case by simp
next
  case (Cons chunk rest)
  let ?tr0 = "tr @ [LoggerInfo (js ''Processing chunk '' @ showNat (i + 1) @ js ''/'' @ showNat n @
                       js '' ('' @ showNat (length chunk) @ js '' chars)'') []]"
  obtain tr1 r1 where s: "synthesizeChunk e m url i chunk ?tr0 = (tr1, r1)"
    by (cases "synthesizeChunk e m url i chunk ?tr0")
  from s have r1: "r1 = segmentAudio e url i chunk"
    using synthesizeChunk_result [of e m url i chunk ?tr0] by simp
  from s have t1: "jobWrites tr1 = jobWrites tr" "uploads tr1 = uploads tr"
      "replicateCalls tr1 = replicateCalls tr @ [(m, chunk, url)]"
    using synthesizeChunk_trace [of e m url i chunk ?tr0]
    by (simp_all add: jobWrites_append uploads_append replicateCalls_append)
  show ?case
  proof (cases r1)
    case (Inl t')
    with Cons.prems s have "tr' = tr1" "t' = t" by (auto simp: Let_def)
    with Inl r1 t1 show ?thesis by (intro exI [of _ 0]) simp
  next
    case (Inr b)
    with Cons.prems s have loop: "synthLoop e jid m url n (i + 1) rest (segs @ [b])
                 (updateJob e jid (noUpdate\<lparr>progress := Some (chunkProgress (fround e) i n)\<rparr>) tr1)
               = (tr', Inl t)"
      by (auto simp: Let_def)
    from Cons.IH [OF loop] obtain k where k: "k < length rest"
      "\<forall>j<k. \<exists>b. segmentAudio e url (i + 1 + j) (rest ! j) = Inr b"
      "segmentAudio e url (i + 1 + k) (rest ! k) = Inl t"
      "replicateCalls tr' = replicateCalls tr1 @ map (\<lambda>c. (m, c, url)) (take (Suc k) rest)"
      "jobWrites tr' = (jobWrites tr1 @ [noUpdate\<lparr>progress := Some (chunkProgress (fround e) i n)\<rparr>]) @
         map (\<lambda>j. noUpdate\<lparr>progress := Some (chunkProgress (fround e) (i + 1 + j) n)\<rparr>) [0..<k]"
      "uploads tr' = uploads tr1"
      by auto
    have idx: "\<forall>j<Suc k. \<exists>b. segmentAudio e url (i + j) ((chunk # rest) ! j) = Inr b"
    proof (intro allI impI)
      fix j assume "j < Suc k"
      moreover have "segmentAudio e url i chunk = Inr b" using r1 Inr by simp
      ultimately show "\<exists>b. segmentAudio e url (i + j) ((chunk # rest) ! j) = Inr b"
        using k(2) by (cases j) auto
    qed
    have wr: "map (\<lambda>j. noUpdate\<lparr>progress := Some (chunkProgress (fround e) (i + j) n)\<rparr>) [0..<Suc k]
          = noUpdate\<lparr>progress := Some (chunkProgress (fround e) i n)\<rparr> #
            map (\<lambda>j. noUpdate\<lparr>progress := Some (chunkProgress (fround e) (i + 1 + j) n)\<rparr>) [0..<k]"
      by (simp add: upt_conv_Cons map_Suc_upt [symmetric] del: upt_Suc)
    show ?thesis
      apply (rule exI [of _ "Suc k"])
      using k t1 idx wr by simp
  qed
qed

lemma stepSynthesize_eq:
  "stepSynthesize e p text url tr =
     synthLoop e (jobId p) (f5ttsModelOf e) url (length (splitText text 4000)) 0 (splitText text 4000) []
       (tr @ [LoggerInfo (js ''Processing '' @ showNat (length (splitText text 4000)) @
                js '' text chunks'') []])"
  by (simp add: stepSynthesize_def f5ttsModelOf_def Let_def)

lemma stepPublish_result:
  "snd (stepPublish e p segs tr) =
     (case storageUpload e (js ''output/'' @ jobId p @ js ''/audiobook.wav'') (concat segs) of
        Some message \<Rightarrow> Inl (ErrorObj (js ''Failed to upload audiobook: '' @ message))
      | None \<Rightarrow> Inr \<lparr>success = True, resultJobId = jobId p,
                      outputPath = js ''output/'' @ jobId p @ js ''/audiobook.wav''\<rparr>)"
  by (auto simp: stepPublish_def Let_def split: option.splits)

lemma stepPublish_writes:
  "jobWrites (fst (stepPublish e p segs tr)) =
     jobWrites tr @ [noUpdate\<lparr>progress := Some 90\<rparr>] @
       (case snd (stepPublish e p segs tr) of
          Inr r \<Rightarrow> [noUpdate\<lparr>status := Some Ready, progress := Some 100,
                              audio_storage_path := Some (js ''output/'' @ jobId p @ js ''/audiobook.wav'')\<rparr>]
        | Inl t \<Rightarrow> [])"
  by (auto simp: stepPublish_def Let_def jobWrites_append split: option.splits)

lemma stepPublish_calls:
  "replicateCalls (fst (stepPublish e p segs tr)) = replicateCalls tr \<and>
   uploads (fst (stepPublish e p segs tr)) =
     uploads tr @ [(js ''output/'' @ jobId p @ js ''/audiobook.wav'', concat segs)]"
  by (auto simp: stepPublish_def Let_def replicateCalls_append uploads_append split: option.splits)

text \<open>The URLs fetched by the steps.\<close>

lemma fetches_append: "fetches (a @ b) = fetches a @ fetches b"
  by (induction a rule: fetches.induct) auto

lemma fetches_updateJob [simp]: "fetches (updateJob e j u tr) = fetches tr"
  using updateJob_cases [of e j u tr] by (auto simp: fetches_append)

lemma stepExtractText_fetches: "fetches (fst (stepExtractText e p tr)) = fetches tr"
  by (auto simp: stepExtractText_def Let_def fetches_append split: prod.splits option.splits sum.splits)

lemma stepVoiceSample_fetches: "fetches (fst (stepVoiceSample e p tr)) = fetches tr"
  by (auto simp: stepVoiceSample_def Let_def fetches_append split: option.splits)

lemma synthesizeChunk_fetches:
  "fetches (fst (synthesizeChunk e m url i chunk tr)) = fetches tr @ chunkFetches e url i chunk"
  by (auto simp: synthesizeChunk_def chunkFetches_def Let_def fetches_append split: sum.splits)

lemma stepPublish_fetches: "fetches (fst (stepPublish e p segs tr)) = fetches tr"
  by (auto simp: stepPublish_def Let_def fetches_append split: option.splits)

lemma synthLoop_fetches:
  assumes "synthLoop e jid m url n i rest segs tr = (tr', r)"
  shows "\<exists>k\<le>length rest. length (replicateCalls tr') = length (replicateCalls tr) + k \<and>
           fetches tr' = fetches tr @
             concat (map (\<lambda>j. chunkFetches e url (i + j) (rest ! j)) [0..<k])"
  using assms
proof (induction rest arbitrary: i segs tr)
  case Nil
  then show ?case by simp
next
  case (Cons chunk rest)
  let ?tr0 = "tr @ [LoggerInfo (js ''Processing chunk '' @ showNat (i + 1) @ js ''/'' @ showNat n @
                       js '' ('' @ showNat (length chunk) @ js '' chars)'') []]"
  obtain tr1 r1 where s: "synthesizeChunk e m url i chunk ?tr0 = (tr1, r1)"
    by (cases "synthesizeChunk e m url i chunk ?tr0")
  from s have t1: "replicateCalls tr1 = replicateCalls tr @ [(m, chunk, url)]"
      "fetches tr1 = fetches tr @ chunkFetches e url i chunk"
    using synthesizeChunk_trace [of e m url i chunk ?tr0] synthesizeChunk_fetches [of e m url i chunk ?tr0]
    by (simp_all add: replicateCalls_append fetches_append)
  show ?case
  proof (cases r1)
    case (Inl t')
    with Cons.prems s have "tr' = tr1" by (auto simp: Let_def)
    with t1 show ?thesis by (intro exI [of _ "Suc 0"]) simp
  next
    case (Inr b)
    with Cons.prems s have loop: "synthLoop e jid m url n (i + 1) rest (segs @ [b])
                 (updateJob e jid (noUpdate\<lparr>progress := Some (chunkProgress (fround e) i n)\<rparr>) tr1)
               = (tr', r)"
      by (auto simp: Let_def)
    from Cons.IH [OF loop] obtain k where k: "k \<le> length rest"
      "length (replicateCalls tr') = length (replicateCalls tr1) + k"
      "fetches tr' = fetches tr1 @ concat (map (\<lambda>j. chunkFetches e url (i + 1 + j) (rest ! j)) [0..<k])"
      by auto
    have wr: "concat (map (\<lambda>j. chunkFetches e url (i + j) ((chunk # rest) ! j)) [0..<Suc k])
          = chunkFetches e url i chunk @
            concat (map (\<lambda>j. chunkFetches e url (i + 1 + j) (rest ! j)) [0..<k])"
      by (simp add: upt_conv_Cons map_Suc_upt [symmetric] comp_def del: upt_Suc)
    show ?thesis
      apply (rule exI [of _ "Suc k"])
      using k t1 wr by simp
  qed
qed

text \<open>How far a run of the \<open>try\<close> block gets.\<close>

lemma tryBlock_cases:
  obtains
    (atExtract) tr t where "stepExtractText e p [] = (tr, Inl t)" "tryBlock e p = (tr, Inl t)"
  | (atVoice) tr1 tx tr t where "stepExtractText e p [] = (tr1, Inr tx)"
      "stepVoiceSample e p tr1 = (tr, Inl t)" "tryBlock e p = (tr, Inl t)"
  | (atSynth) tr1 tx tr2 url tr t where "stepExtractText e p [] = (tr1, Inr tx)"
      "stepVoiceSample e p tr1 = (tr2, Inr url)"
      "stepSynthesize e p tx url tr2 = (tr, Inl t)" "tryBlock e p = (tr, Inl t)"
  | (atPublish) tr1 tx tr2 url tr3 segs where "stepExtractText e p [] = (tr1, Inr tx)"
      "stepVoiceSample e p tr1 = (tr2, Inr url)"
      "stepSynthesize e p tx url tr2 = (tr3, Inr segs)" "tryBlock e p = stepPublish e p segs tr3"
proof -
  obtain tr1 r1 where 1: "stepExtractText e p [] = (tr1, r1)" by (cases "stepExtractText e p []")
  show ?thesis
  proof (cases r1)
    case (Inl t)
    with 1 show ?thesis by (intro atExtract [of tr1 t]) (simp_all add: tryBlock_def)
  next
    case (Inr tx)
    note tx = this
    obtain tr2 r2 where 2: "stepVoiceSample e p tr1 = (tr2, r2)" by (cases "stepVoiceSample e p tr1")
    show ?thesis
    proof (cases r2)
      case (Inl t)
      with 1 2 tx show ?thesis by (intro atVoice [of tr1 tx tr2 t]) (simp_all add: tryBlock_def)
    next
      case (Inr url)
      note url = this
      obtain tr3 r3 where 3: "stepSynthesize e p tx url tr2 = (tr3, r3)"
        by (cases "stepSynthesize e p tx url tr2")
      show ?thesis
      proof (cases r3)
        case (Inl t)
        with 1 2 3 tx url show ?thesis
          by (intro atSynth [of tr1 tx tr2 url tr3 t]) (simp_all add: tryBlock_def)
      next
        case (Inr segs)
        with 1 2 3 tx url show ?thesis
          by (intro atPublish [of tr1 tx tr2 url tr3 segs]) (simp_all add: tryBlock_def)
      qed
    qed
  qed
qed

section \<open>Updates that fail to persist\<close>











section \<open>Progress values\<close>

lemma chunkProgress_mono:
  assumes "mono fl" and "i \<le> j"
  shows "chunkProgress fl i n \<le> chunkProgress fl j n"
proof -
  have "(of_nat (i + 1) :: rat) / of_nat n \<le> of_nat (j + 1) / of_nat n"
    using assms(2) by (simp add: divide_right_mono)
  then have "fl (of_nat (i + 1) / of_nat n) \<le> fl (of_nat (j + 1) / of_nat n)"
    by (rule monoD [OF assms(1)])
  then have "fl (of_nat (i + 1) / of_nat n) * 50 \<le> fl (of_nat (j + 1) / of_nat n) * 50"
    by simp
  then have "fl (fl (of_nat (i + 1) / of_nat n) * 50) \<le> fl (fl (of_nat (j + 1) / of_nat n) * 50)"
    by (rule monoD [OF assms(1)])
  then show ?thesis by (simp add: chunkProgress_def floor_mono)
qed

lemma chunkProgress_bounds:
  assumes "mono fl" and "fl 0 = 0" and "fl 1 = 1" and "fl 50 = 50" and "i < n"
  shows "35 \<le> chunkProgress fl i n \<and> chunkProgress fl i n \<le> 85"
proof -
  let ?q = "(of_nat (i + 1) :: rat) / of_nat n"
  have "0 \<le> ?q" by simp
  moreover have "?q \<le> 1" using assms(5) by simp
  ultimately have q: "0 \<le> fl ?q" "fl ?q \<le> 1"
    using monoD [OF assms(1), of 0 ?q] monoD [OF assms(1), of ?q 1] assms(2,3) by simp_all
  then have "0 \<le> fl ?q * 50" "fl ?q * 50 \<le> 50" by simp_all
  then have "0 \<le> fl (fl ?q * 50)" "fl (fl ?q * 50) \<le> 50"
    using monoD [OF assms(1), of 0 "fl ?q * 50"] monoD [OF assms(1), of "fl ?q * 50" 50] assms(2,4)
    by simp_all
  then have "0 \<le> \<lfloor>fl (fl ?q * 50)\<rfloor>" "\<lfloor>fl (fl ?q * 50)\<rfloor> \<le> 50"
    by (simp_all add: floor_le_iff)
  then show ?thesis by (simp add: chunkProgress_def)
qed

lemma sorted_progress_list:
  assumes "mono fl" and "fl 0 = 0" and "fl 1 = 1" and "fl 50 = 50"
  shows "sorted ([5, 10, 25, 35] @ map (\<lambda>i. chunkProgress fl i n) [0..<n] @ [90, 100])"
proof -
  have m: "sorted (map (\<lambda>i. chunkProgress fl i n) [0..<n])"
    by (simp add: sorted_iff_nth_mono chunkProgress_mono [OF assms(1)])
  have b: "\<forall>x\<in>set (map (\<lambda>i. chunkProgress fl i n) [0..<n]). 35 \<le> x \<and> x \<le> 85"
    using chunkProgress_bounds [OF assms] by auto
  have "sorted (map (\<lambda>i. chunkProgress fl i n) [0..<n] @ [90, 100])"
    using m b by (fastforce simp: sorted_append)
  moreover have "\<forall>x\<in>set (map (\<lambda>i. chunkProgress fl i n) [0..<n] @ [90, 100]). 35 \<le> x"
    using b by auto
  ultimately show ?thesis by (fastforce simp: sorted_append)
qed

lemma progressValues_map:
  "progressValues (map (\<lambda>j. u\<lparr>progress := Some (g j)\<rparr>) xs) = map g xs"
  by (induction xs) auto

section \<open>Properties of the rounding to a double\<close>

lemma log2nat_bounds: "0 < n \<Longrightarrow> 2 ^ log2nat n \<le> n \<and> n < 2 ^ Suc (log2nat n)"
proof (induction n rule: log2nat.induct)
  case (1 n)
  show ?case
  proof (cases "n < 2")
    case True
    with 1 show ?thesis by (simp add: log2nat.simps)
  next
    case False
    then have "0 < n div 2" by simp
    with 1 False have IH: "2 ^ log2nat (n div 2) \<le> n div 2" "n div 2 < 2 ^ Suc (log2nat (n div 2))"
      by simp_all
    have l: "log2nat n = Suc (log2nat (n div 2))" using False by (simp add: log2nat.simps)
    from IH show ?thesis unfolding l by simp linarith
  qed
qed

lemma ilog2_bounds:
  assumes "0 < x"
  shows "2 powi (ilog2 x) \<le> x \<and> x < 2 powi (ilog2 x + 1)"
proof -
  obtain a b where q: "quotient_of x = (a, b)" by (cases "quotient_of x")
  then have b: "0 < b" and x: "x = of_int a / of_int b"
    by (simp_all add: quotient_of_denom_pos quotient_of_div)
  with assms have a: "0 < a" by (simp add: zero_less_divide_iff)
  let ?la = "log2nat (nat a)" and ?lb = "log2nat (nat b)"
  let ?d = "int ?la - int ?lb"
  from log2nat_bounds [of "nat a"] a have A: "2 ^ ?la \<le> nat a" "nat a < 2 ^ Suc ?la" by simp_all
  from log2nat_bounds [of "nat b"] b have B: "2 ^ ?lb \<le> nat b" "nat b < 2 ^ Suc ?lb" by simp_all
  have ra: "(2::rat) ^ ?la \<le> of_int a" "(of_int a :: rat) < 2 ^ Suc ?la"
  proof -
    have "(of_nat (2 ^ ?la) :: rat) \<le> of_nat (nat a)" using A(1) by (simp only: of_nat_le_iff)
    then show "(2::rat) ^ ?la \<le> of_int a" using a by simp
    have "(of_nat (nat a) :: rat) < of_nat (2 ^ Suc ?la)" using A(2) by (simp only: of_nat_less_iff)
    then show "(of_int a :: rat) < 2 ^ Suc ?la" using a by simp
  qed
  have rb: "(2::rat) ^ ?lb \<le> of_int b" "(of_int b :: rat) < 2 ^ Suc ?lb"
  proof -
    have "(of_nat (2 ^ ?lb) :: rat) \<le> of_nat (nat b)" using B(1) by (simp only: of_nat_le_iff)
    then show "(2::rat) ^ ?lb \<le> of_int b" using b by simp
    have "(of_nat (nat b) :: rat) < of_nat (2 ^ Suc ?lb)" using B(2) by (simp only: of_nat_less_iff)
    then show "(of_int b :: rat) < 2 ^ Suc ?lb" using b by simp
  qed
  have bpos: "(0::rat) < of_int b" using b by simp
  have up: "x < 2 powi (?d + 1)"
  proof -
    have "x < 2 ^ Suc ?la / of_int b" unfolding x using ra(2) bpos by (simp add: divide_strict_right_mono)
    also have "\<dots> \<le> 2 ^ Suc ?la / 2 ^ ?lb" using rb(1) by (simp add: frac_le)
    also have "\<dots> = 2 powi (?d + 1)"
      by (simp add: power_int_diff power_int_add)
    finally show ?thesis .
  qed
  have lo: "2 powi (?d - 1) \<le> x"
  proof -
    have "2 powi (?d - 1) = (2::rat) ^ ?la / 2 ^ Suc ?lb"
      by (simp add: power_int_diff)
    also have "\<dots> \<le> of_int a / 2 ^ Suc ?lb" using ra(1) by (simp add: divide_right_mono)
    also have "\<dots> \<le> of_int a / of_int b" using rb(2) a bpos by (simp add: frac_le)
    finally show ?thesis by (simp add: x)
  qed
  show ?thesis
  proof (cases "2 powi ?d \<le> x")
    case True
    then have "ilog2 x = ?d" by (simp add: ilog2_def q)
    with True up show ?thesis by simp
  next
    case False
    then have "ilog2 x = ?d - 1" by (simp add: ilog2_def q)
    with False lo show ?thesis by simp
  qed
qed

lemma two_powi_less_imp: "(2::rat) powi m < 2 powi n \<Longrightarrow> m < n"
proof (rule ccontr)
  assume a: "(2::rat) powi m < 2 powi n" and "\<not> m < n"
  then have "n \<le> m" by simp
  then have "(2::rat) powi n \<le> 2 powi m" by (intro power_int_increasing) simp_all
  with a show False by simp
qed

lemma ilog2_unique:
  assumes "2 powi e \<le> x" and "x < 2 powi (e + 1)"
  shows "ilog2 x = e"
proof -
  have "(0::rat) < 2 powi e" by simp
  with assms(1) have pos: "0 < x" by linarith
  note b = ilog2_bounds [OF pos]
  have "2 powi e < (2::rat) powi (ilog2 x + 1)" using assms(1) b by linarith
  then have 1: "e < ilog2 x + 1" by (rule two_powi_less_imp)
  have "2 powi (ilog2 x) < (2::rat) powi (e + 1)" using assms(2) b by linarith
  then have 2: "ilog2 x < e + 1" by (rule two_powi_less_imp)
  from 1 2 show ?thesis by simp
qed

lemma ilog2_mono:
  assumes "0 < x" and "x \<le> y"
  shows "ilog2 x \<le> ilog2 y"
proof -
  from assms have "0 < y" by simp
  from ilog2_bounds [OF assms(1)] ilog2_bounds [OF this] assms(2)
  have "2 powi (ilog2 x) < (2::rat) powi (ilog2 y + 1)" by linarith
  then have "ilog2 x < ilog2 y + 1" by (rule two_powi_less_imp)
  then show ?thesis by simp
qed


lemma roundHalfEven_of_int [simp]: "roundHalfEven (of_int k) = k"
  by (simp add: roundHalfEven_def)

lemma roundHalfEven_numeral [simp]:
  "roundHalfEven (numeral n) = numeral n" "roundHalfEven 0 = 0" "roundHalfEven 1 = 1"
  using roundHalfEven_of_int [of "numeral n"] roundHalfEven_of_int [of 0] roundHalfEven_of_int [of 1]
  by simp_all

lemma roundHalfEven_range: "\<lfloor>y\<rfloor> \<le> roundHalfEven y \<and> roundHalfEven y \<le> \<lfloor>y\<rfloor> + 1"
  by (simp add: roundHalfEven_def Let_def)

lemma roundHalfEven_mono:
  assumes "x \<le> y"
  shows "roundHalfEven x \<le> roundHalfEven y"
proof (cases "\<lfloor>x\<rfloor> = \<lfloor>y\<rfloor>")
  case True
  then have "x - of_int \<lfloor>x\<rfloor> \<le> y - of_int \<lfloor>y\<rfloor>" using assms by simp
  with True show ?thesis by (auto simp: roundHalfEven_def Let_def)
next
  case False
  with assms have "\<lfloor>x\<rfloor> < \<lfloor>y\<rfloor>" using floor_mono [OF assms] by simp
  then have "\<lfloor>x\<rfloor> + 1 \<le> \<lfloor>y\<rfloor>" by simp
  with roundHalfEven_range [of x] roundHalfEven_range [of y] show ?thesis by linarith
qed

text \<open>A positive number and its rounding lie in the same binade, ends included.\<close>

lemma roundDouble_binade:
  assumes "0 < x"
  shows "2 powi (ilog2 x) \<le> roundDouble x \<and> roundDouble x \<le> 2 powi (ilog2 x + 1)"
proof -
  let ?e = "ilog2 x"
  let ?q = "(2::rat) powi (?e - 52)"
  have q: "0 < ?q" by simp
  have r: "roundDouble x = of_int (roundHalfEven (x / ?q)) * ?q"
    using assms by (simp add: roundDouble_def Let_def)
  note b = ilog2_bounds [OF assms]
  have lo: "(2::rat) powi ?e = of_int (2 ^ 52) * ?q" by (simp add: power_int_diff)
  have hi: "(2::rat) powi (?e + 1) = of_int (2 ^ 53) * ?q" by (simp add: power_int_diff power_int_add)
  have "of_int (2 ^ 52) \<le> x / ?q" using b lo q by (simp add: pos_le_divide_eq)
  from roundHalfEven_mono [OF this] have 1: "2 ^ 52 \<le> roundHalfEven (x / ?q)" by simp
  have "x / ?q \<le> of_int (2 ^ 53)" using b hi q by (simp add: pos_divide_le_eq)
  from roundHalfEven_mono [OF this] have 2: "roundHalfEven (x / ?q) \<le> 2 ^ 53" by simp
  have i1: "(of_int (2 ^ 52) :: rat) \<le> of_int (roundHalfEven (x / ?q))"
    using 1 by (simp only: of_int_le_iff)
  have i2: "(of_int (roundHalfEven (x / ?q)) :: rat) \<le> of_int (2 ^ 53)"
    using 2 by (simp only: of_int_le_iff)
  have q0: "0 \<le> ?q" by simp
  have "of_int (2 ^ 52) * ?q \<le> of_int (roundHalfEven (x / ?q)) * ?q"
    using i1 q0 by (rule mult_right_mono)
  moreover have "of_int (roundHalfEven (x / ?q)) * ?q \<le> of_int (2 ^ 53) * ?q"
    using i2 q0 by (rule mult_right_mono)
  ultimately show ?thesis unfolding r lo hi by simp
qed

lemma roundDouble_mono_pos:
  assumes "0 < x" and "x \<le> y"
  shows "roundDouble x \<le> roundDouble y"
proof -
  from assms have y: "0 < y" by simp
  show ?thesis
  proof (cases "ilog2 x = ilog2 y")
    case True
    let ?q = "(2::rat) powi (ilog2 y - 52)"
    have q: "0 < ?q" by simp
    have "x / ?q \<le> y / ?q" using assms(2) q by (simp add: divide_right_mono)
    from roundHalfEven_mono [OF this]
    have "(of_int (roundHalfEven (x / ?q)) :: rat) \<le> of_int (roundHalfEven (y / ?q))" by simp
    then have "of_int (roundHalfEven (x / ?q)) * ?q \<le> of_int (roundHalfEven (y / ?q)) * ?q"
      using q by (intro mult_right_mono) simp_all
    then show ?thesis using assms(1) y True by (simp add: roundDouble_def Let_def)
  next
    case False
    with ilog2_mono [OF assms] have "ilog2 x + 1 \<le> ilog2 y" by simp
    then have "(2::rat) powi (ilog2 x + 1) \<le> 2 powi (ilog2 y)" by (intro power_int_increasing) simp_all
    with roundDouble_binade [OF assms(1)] roundDouble_binade [OF y] show ?thesis by linarith
  qed
qed

lemma roundDouble_pos: "0 < x \<Longrightarrow> 0 < roundDouble x"
proof -
  assume a: "0 < x"
  have "(0::rat) < 2 powi (ilog2 x)" by simp
  with roundDouble_binade [OF a] show ?thesis by linarith
qed

lemma roundDouble_minus: "roundDouble (- x) = - roundDouble x"
  by (simp add: roundDouble_def Let_def)

lemma roundDouble_mono: "mono roundDouble"
proof (rule monoI)
  fix x y :: rat assume le: "x \<le> y"
  consider "0 < x" | "x = 0" | "x < 0" "y < 0" | "x < 0" "0 \<le> y" by linarith
  then show "roundDouble x \<le> roundDouble y"
  proof cases
    case 1
    then show ?thesis using le by (rule roundDouble_mono_pos)
  next
    case 2
    then have "y = 0 \<or> 0 < y" using le by auto
    then show ?thesis using 2 roundDouble_pos [of y] by (auto simp: roundDouble_def)
  next
    case 3
    then have "0 < - y" "- y \<le> - x" using le by simp_all
    from roundDouble_mono_pos [OF this] show ?thesis by (simp add: roundDouble_minus)
  next
    case 4
    then have "0 < - x" by simp
    from roundDouble_pos [OF this] have "roundDouble x < 0" by (simp add: roundDouble_minus)
    moreover have "0 \<le> roundDouble y"
      using 4(2) roundDouble_pos [of y] by (cases "y = 0") (auto simp: roundDouble_def)
    ultimately show ?thesis by simp
  qed
qed

text \<open>A number with a significand of at most 53 bits is a double: rounding leaves it.\<close>

lemma roundDouble_exact:
  assumes "0 < k" and "k < 2 ^ 53"
  shows "roundDouble (of_int k * 2 powi j) = of_int k * 2 powi j"
proof -
  let ?x = "of_int k * (2::rat) powi j"
  have pos: "0 < ?x" using assms(1) by simp
  let ?e = "ilog2 ?x"
  note b = ilog2_bounds [OF pos]
  have "(of_int k :: rat) < of_int (2 ^ 53)" using assms(2) by (simp only: of_int_less_iff)
  moreover have "(0::rat) < 2 powi j" by simp
  ultimately have "?x < of_int (2 ^ 53) * 2 powi j" by (rule mult_strict_right_mono)
  also have "\<dots> = 2 powi (53 + j)" by (simp add: power_int_add)
  finally have "?x < 2 powi (53 + j)" .
  then have "2 powi ?e < (2::rat) powi (53 + j)" using b by linarith
  then have e: "?e < 53 + j" by (rule two_powi_less_imp)
  define n where "n = nat (j - ?e + 52)"
  have n: "int n = j - ?e + 52" using e by (simp add: n_def)
  have "(2::rat) powi j / 2 powi (?e - 52) = 2 powi (j - ?e + 52)"
    by (simp add: power_int_diff power_int_add field_simps)
  also have "\<dots> = 2 ^ n" using n by (metis power_int_of_nat)
  finally have d: "(2::rat) powi j / 2 powi (?e - 52) = 2 ^ n" .
  have "?x / 2 powi (?e - 52) = of_int k * (2 powi j / 2 powi (?e - 52))" by simp
  also have "\<dots> = of_int (k * 2 ^ n)" by (simp add: d)
  finally have i: "?x / 2 powi (?e - 52) = of_int (k * 2 ^ n)" .
  have "roundDouble ?x = of_int (roundHalfEven (?x / 2 powi (?e - 52))) * 2 powi (?e - 52)"
    using pos by (simp add: roundDouble_def Let_def)
  also have "\<dots> = of_int (k * 2 ^ n) * 2 powi (?e - 52)" by (simp only: i roundHalfEven_of_int)
  also have "\<dots> = ?x / 2 powi (?e - 52) * 2 powi (?e - 52)" by (simp only: i)
  also have "\<dots> = ?x" by simp
  finally show ?thesis .
qed

lemma roundDouble_fixed: "roundDouble 0 = 0" "roundDouble 1 = 1" "roundDouble 50 = 50"
  using roundDouble_exact [of 1 0] roundDouble_exact [of 50 0] by (simp_all add: roundDouble_def)

lemma roundDouble_between:
  assumes "0 < k1" and "k1 < 2 ^ 53" and "0 < k2" and "k2 < 2 ^ 53"
    and "of_int k1 * 2 powi j1 \<le> x" and "x \<le> of_int k2 * 2 powi j2"
  shows "of_int k1 * 2 powi j1 \<le> roundDouble x \<and> roundDouble x \<le> of_int k2 * 2 powi j2"
  using monoD [OF roundDouble_mono assms(5)] monoD [OF roundDouble_mono assms(6)]
    roundDouble_exact [OF assms(1,2), of j1] roundDouble_exact [OF assms(3,4), of j2]
  by simp

section \<open>Runs of the task\<close>

lemma generateAudiobook_eq:
  "snd (generateAudiobook e p) = snd (tryBlock e p) \<and>
   uploads (fst (generateAudiobook e p)) = uploads (fst (tryBlock e p)) \<and>
   replicateCalls (fst (generateAudiobook e p)) = replicateCalls (fst (tryBlock e p)) \<and>
   jobWrites (fst (generateAudiobook e p)) =
     jobWrites (fst (tryBlock e p)) @
       (case snd (tryBlock e p) of
          Inl err \<Rightarrow> [noUpdate\<lparr>status := Some Failed, error := Some (messageOf err)\<rparr>]
        | Inr r \<Rightarrow> [])"
  by (cases "tryBlock e p")
     (auto simp: generateAudiobook_def Let_def messageOf_def uploads_append replicateCalls_append
           jobWrites_append split: sum.splits)

text \<open>The state of a run when the synthesis loop has ended without a throw.\<close>

lemma stage_synthesized:
  assumes "stepExtractText e p [] = (tr1, Inr tx)"
    and "stepVoiceSample e p tr1 = (tr2, Inr url)"
    and "stepSynthesize e p tx url tr2 = (tr3, Inr segs)"
  shows "extractedText e p = Some tx \<and>
     (\<exists>path. truthyString (voiceStoragePath p) = Some path \<and> url = storageGetPublicUrl e path) \<and>
     length segs = length (splitText tx 4000) \<and>
     (\<forall>i<length (splitText tx 4000). segmentAudio e url i (splitText tx 4000 ! i) = Inr (segs ! i)) \<and>
     replicateCalls tr3 = map (\<lambda>c. (f5ttsModelOf e, c, url)) (splitText tx 4000) \<and>
     uploads tr3 = [] \<and>
     jobWrites tr3 =
       [noUpdate\<lparr>status := Some Processing, progress := Some 5\<rparr>, noUpdate\<lparr>progress := Some 10\<rparr>,
        noUpdate\<lparr>progress := Some 25\<rparr>, noUpdate\<lparr>progress := Some 35\<rparr>] @
       map (\<lambda>j. noUpdate\<lparr>progress := Some (chunkProgress (fround e) j (length (splitText tx 4000)))\<rparr>)
         [0..<length (splitText tx 4000)]"
proof -
  from assms(1) have tx: "extractedText e p = Some tx"
    using stepExtractText_result [of e p "[]" tx] by simp
  from assms(1) have w1: "jobWrites tr1 =
      [noUpdate\<lparr>status := Some Processing, progress := Some 5\<rparr>, noUpdate\<lparr>progress := Some 10\<rparr>,
       noUpdate\<lparr>progress := Some 25\<rparr>]"
    and c1: "replicateCalls tr1 = []" "uploads tr1 = []"
    using stepExtractText_writes [of e p "[]"] stepExtractText_calls [of e p "[]"] by simp_all
  from assms(2) obtain path where path: "truthyString (voiceStoragePath p) = Some path"
      "url = storageGetPublicUrl e path"
    using stepVoiceSample_result [of e p tr1] by (auto split: option.splits)
  from assms(2) path w1 c1 have w2: "jobWrites tr2 =
      [noUpdate\<lparr>status := Some Processing, progress := Some 5\<rparr>, noUpdate\<lparr>progress := Some 10\<rparr>,
       noUpdate\<lparr>progress := Some 25\<rparr>, noUpdate\<lparr>progress := Some 35\<rparr>]"
    and c2: "replicateCalls tr2 = []" "uploads tr2 = []"
    using stepVoiceSample_writes [of e p tr1] stepVoiceSample_calls [of e p tr1] by simp_all
  let ?chunks = "splitText tx 4000"
  from assms(3) have "synthLoop e (jobId p) (f5ttsModelOf e) url (length ?chunks) 0 ?chunks []
       (tr2 @ [LoggerInfo (js ''Processing '' @ showNat (length ?chunks) @ js '' text chunks'') []])
     = (tr3, Inr segs)"
    by (simp add: stepSynthesize_eq)
  from synthLoop_success [OF this]
  have l: "length segs = length ?chunks"
    "\<forall>j<length ?chunks. segmentAudio e url j (?chunks ! j) = Inr (segs ! j)"
    "replicateCalls tr3 = map (\<lambda>c. (f5ttsModelOf e, c, url)) ?chunks"
    "jobWrites tr3 = jobWrites tr2 @
       map (\<lambda>j. noUpdate\<lparr>progress := Some (chunkProgress (fround e) j (length ?chunks))\<rparr>) [0..<length ?chunks]"
    "uploads tr3 = []"
    using c2 by (auto simp: replicateCalls_append jobWrites_append uploads_append)
  from tx path l w2 show ?thesis by simp
qed

text \<open>The state of a run when the synthesis loop has thrown.\<close>

lemma stage_synthesis_failed:
  assumes "stepExtractText e p [] = (tr1, Inr tx)"
    and "stepVoiceSample e p tr1 = (tr2, Inr url)"
    and "stepSynthesize e p tx url tr2 = (tr3, Inl t)"
  shows "extractedText e p = Some tx \<and>
     (\<exists>path. truthyString (voiceStoragePath p) = Some path \<and> url = storageGetPublicUrl e path) \<and>
     (\<exists>k<length (splitText tx 4000).
        (\<forall>j<k. \<exists>b. segmentAudio e url j (splitText tx 4000 ! j) = Inr b) \<and>
        segmentAudio e url k (splitText tx 4000 ! k) = Inl t \<and>
        replicateCalls tr3 = map (\<lambda>c. (f5ttsModelOf e, c, url)) (take (Suc k) (splitText tx 4000)) \<and>
        jobWrites tr3 =
          [noUpdate\<lparr>status := Some Processing, progress := Some 5\<rparr>, noUpdate\<lparr>progress := Some 10\<rparr>,
           noUpdate\<lparr>progress := Some 25\<rparr>, noUpdate\<lparr>progress := Some 35\<rparr>] @
          map (\<lambda>j. noUpdate\<lparr>progress := Some (chunkProgress (fround e) j (length (splitText tx 4000)))\<rparr>)
            [0..<k]) \<and>
     uploads tr3 = []"
proof -
  from assms(1) have tx: "extractedText e p = Some tx"
    using stepExtractText_result [of e p "[]" tx] by simp
  from assms(1) have w1: "jobWrites tr1 =
      [noUpdate\<lparr>status := Some Processing, progress := Some 5\<rparr>, noUpdate\<lparr>progress := Some 10\<rparr>,
       noUpdate\<lparr>progress := Some 25\<rparr>]"
    and c1: "replicateCalls tr1 = []" "uploads tr1 = []"
    using stepExtractText_writes [of e p "[]"] stepExtractText_calls [of e p "[]"] by simp_all
  from assms(2) obtain path where path: "truthyString (voiceStoragePath p) = Some path"
      "url = storageGetPublicUrl e path"
    using stepVoiceSample_result [of e p tr1] by (auto split: option.splits)
  from assms(2) path w1 c1 have w2: "jobWrites tr2 =
      [noUpdate\<lparr>status := Some Processing, progress := Some 5\<rparr>, noUpdate\<lparr>progress := Some 10\<rparr>,
       noUpdate\<lparr>progress := Some 25\<rparr>, noUpdate\<lparr>progress := Some 35\<rparr>]"
    and c2: "replicateCalls tr2 = []" "uploads tr2 = []"
    using stepVoiceSample_writes [of e p tr1] stepVoiceSample_calls [of e p tr1] by simp_all
  let ?chunks = "splitText tx 4000"
  from assms(3) have "synthLoop e (jobId p) (f5ttsModelOf e) url (length ?chunks) 0 ?chunks []
       (tr2 @ [LoggerInfo (js ''Processing '' @ showNat (length ?chunks) @ js '' text chunks'') []])
     = (tr3, Inl t)"
    by (simp add: stepSynthesize_eq)
  from synthLoop_failure [OF this]
  obtain k where k: "k < length ?chunks"
    "\<forall>j<k. \<exists>b. segmentAudio e url j (?chunks ! j) = Inr b"
    "segmentAudio e url k (?chunks ! k) = Inl t"
    "replicateCalls tr3 = map (\<lambda>c. (f5ttsModelOf e, c, url)) (take (Suc k) ?chunks)"
    "jobWrites tr3 = jobWrites tr2 @
       map (\<lambda>j. noUpdate\<lparr>progress := Some (chunkProgress (fround e) j (length ?chunks))\<rparr>) [0..<k]"
    "uploads tr3 = []"
    using c2 by (auto simp: replicateCalls_append jobWrites_append uploads_append)
  from tx path k w2 show ?thesis by auto
qed

lemma tryBlock_success:
  assumes "tryBlock e p = (tr, Inr r)"
  shows "\<exists>text path outs.
     extractedText e p = Some text \<and> truthyString (voiceStoragePath p) = Some path \<and>
     length outs = length (splitText text 4000) \<and>
     (\<forall>i<length (splitText text 4000).
        segmentAudio e (storageGetPublicUrl e path) i (splitText text 4000 ! i) = Inr (outs ! i)) \<and>
     replicateCalls tr =
       map (\<lambda>c. (f5ttsModelOf e, c, storageGetPublicUrl e path)) (splitText text 4000) \<and>
     uploads tr = [(js ''output/'' @ jobId p @ js ''/audiobook.wav'', concat outs)] \<and>
     storageUpload e (js ''output/'' @ jobId p @ js ''/audiobook.wav'') (concat outs) = None \<and>
     jobWrites tr =
       [noUpdate\<lparr>status := Some Processing, progress := Some 5\<rparr>, noUpdate\<lparr>progress := Some 10\<rparr>,
        noUpdate\<lparr>progress := Some 25\<rparr>, noUpdate\<lparr>progress := Some 35\<rparr>] @
       map (\<lambda>j. noUpdate\<lparr>progress := Some (chunkProgress (fround e) j (length (splitText text 4000)))\<rparr>)
         [0..<length (splitText text 4000)] @
       [noUpdate\<lparr>progress := Some 90\<rparr>,
        noUpdate\<lparr>status := Some Ready, progress := Some 100,
                 audio_storage_path := Some (js ''output/'' @ jobId p @ js ''/audiobook.wav'')\<rparr>]"
proof (cases rule: tryBlock_cases [of e p])
  case (atExtract tr t)
  with assms show ?thesis by simp
next
  case (atVoice tr1 tx tr t)
  with assms show ?thesis by simp
next
  case (atSynth tr1 tx tr2 url tr t)
  with assms show ?thesis by simp
next
  case (atPublish tr1 tx tr2 url tr3 segs)
  from stage_synthesized [OF atPublish(1-3)] obtain path where
    s: "extractedText e p = Some tx" "truthyString (voiceStoragePath p) = Some path"
      "url = storageGetPublicUrl e path" "length segs = length (splitText tx 4000)"
      "\<forall>i<length (splitText tx 4000). segmentAudio e url i (splitText tx 4000 ! i) = Inr (segs ! i)"
      "replicateCalls tr3 = map (\<lambda>c. (f5ttsModelOf e, c, url)) (splitText tx 4000)"
      "uploads tr3 = []"
      "jobWrites tr3 =
       [noUpdate\<lparr>status := Some Processing, progress := Some 5\<rparr>, noUpdate\<lparr>progress := Some 10\<rparr>,
        noUpdate\<lparr>progress := Some 25\<rparr>, noUpdate\<lparr>progress := Some 35\<rparr>] @
       map (\<lambda>j. noUpdate\<lparr>progress := Some (chunkProgress (fround e) j (length (splitText tx 4000)))\<rparr>)
         [0..<length (splitText tx 4000)]"
    by blast
  from assms atPublish(4) have pub: "stepPublish e p segs tr3 = (tr, Inr r)" by simp
  then have up: "storageUpload e (js ''output/'' @ jobId p @ js ''/audiobook.wav'') (concat segs) = None"
    using stepPublish_result [of e p segs tr3] by (auto split: option.splits)
  from pub have w4: "jobWrites tr = jobWrites tr3 @ [noUpdate\<lparr>progress := Some 90\<rparr>,
        noUpdate\<lparr>status := Some Ready, progress := Some 100,
                 audio_storage_path := Some (js ''output/'' @ jobId p @ js ''/audiobook.wav'')\<rparr>]"
    and c4: "replicateCalls tr = replicateCalls tr3"
      "uploads tr = uploads tr3 @ [(js ''output/'' @ jobId p @ js ''/audiobook.wav'', concat segs)]"
    using stepPublish_writes [of e p segs tr3] stepPublish_calls [of e p segs tr3] by simp_all
  show ?thesis
    apply (rule exI [of _ tx], rule exI [of _ path], rule exI [of _ segs])
    using s up w4 c4 by simp
qed

text \<open>A run in which the upload was attempted.\<close>

lemma tryBlock_upload:
  assumes "uploads (fst (tryBlock e p)) \<noteq> []"
  shows "\<exists>text path outs.
     extractedText e p = Some text \<and> truthyString (voiceStoragePath p) = Some path \<and>
     length outs = length (splitText text 4000) \<and>
     (\<forall>i<length (splitText text 4000).
        segmentAudio e (storageGetPublicUrl e path) i (splitText text 4000 ! i) = Inr (outs ! i)) \<and>
     replicateCalls (fst (tryBlock e p)) =
       map (\<lambda>c. (f5ttsModelOf e, c, storageGetPublicUrl e path)) (splitText text 4000) \<and>
     uploads (fst (tryBlock e p)) = [(js ''output/'' @ jobId p @ js ''/audiobook.wav'', concat outs)]"
proof (cases rule: tryBlock_cases [of e p])
  case (atExtract tr t)
  with assms stepExtractText_calls [of e p "[]"] show ?thesis by simp
next
  case (atVoice tr1 tx tr t)
  with assms stepExtractText_calls [of e p "[]"] stepVoiceSample_calls [of e p tr1]
  show ?thesis by simp
next
  case (atSynth tr1 tx tr2 url tr t)
  with assms stage_synthesis_failed [OF atSynth(1-3)] show ?thesis by simp
next
  case (atPublish tr1 tx tr2 url tr3 segs)
  from stage_synthesized [OF atPublish(1-3)] obtain path where
    s: "extractedText e p = Some tx" "truthyString (voiceStoragePath p) = Some path"
      "url = storageGetPublicUrl e path" "length segs = length (splitText tx 4000)"
      "\<forall>i<length (splitText tx 4000). segmentAudio e url i (splitText tx 4000 ! i) = Inr (segs ! i)"
      "replicateCalls tr3 = map (\<lambda>c. (f5ttsModelOf e, c, url)) (splitText tx 4000)"
      "uploads tr3 = []"
    by blast
  have c4: "replicateCalls (fst (tryBlock e p)) = replicateCalls tr3"
      "uploads (fst (tryBlock e p)) =
         uploads tr3 @ [(js ''output/'' @ jobId p @ js ''/audiobook.wav'', concat segs)]"
    using atPublish(4) stepPublish_calls [of e p segs tr3] by simp_all
  show ?thesis
    apply (rule exI [of _ tx], rule exI [of _ path], rule exI [of _ segs])
    using s c4 by simp
qed

text \<open>A run of the \<open>try\<close> block that throws: what has been written to the job by then.\<close>

lemma tryBlock_failure:
  assumes "tryBlock e p = (tr, Inl t)"
  shows "\<forall>u\<in>set (jobWrites tr).
           status u \<noteq> Some Failed \<and> status u \<noteq> Some Ready \<and> audio_storage_path u = None"
proof (cases rule: tryBlock_cases [of e p])
  case (atExtract tr' t')
  with assms stepExtractText_writes [of e p "[]"] show ?thesis
    by (auto simp: noUpdate_def)
next
  case (atVoice tr1 tx tr' t')
  with assms stepExtractText_writes [of e p "[]"] stepVoiceSample_writes [of e p tr1]
  show ?thesis by (auto simp: noUpdate_def split: option.splits)
next
  case (atSynth tr1 tx tr2 url tr' t')
  with assms stage_synthesis_failed [OF atSynth(1-3)] show ?thesis
    by (auto simp: noUpdate_def)
next
  case (atPublish tr1 tx tr2 url tr3 segs)
  from stage_synthesized [OF atPublish(1-3)] have
    w3: "\<forall>u\<in>set (jobWrites tr3).
           status u \<noteq> Some Failed \<and> status u \<noteq> Some Ready \<and> audio_storage_path u = None"
    by (auto simp: noUpdate_def)
  from assms atPublish(4) have "stepPublish e p segs tr3 = (tr, Inl t)" by simp
  then have "jobWrites tr = jobWrites tr3 @ [noUpdate\<lparr>progress := Some 90\<rparr>]"
    using stepPublish_writes [of e p segs tr3] by simp
  with w3 show ?thesis by (auto simp: noUpdate_def)
qed

lemma tryBlock_never_failed_write:
  "\<forall>u\<in>set (jobWrites (fst (tryBlock e p))). status u \<noteq> Some Failed"
proof (cases "snd (tryBlock e p)")
  case (Inl t)
  then have "tryBlock e p = (fst (tryBlock e p), Inl t)" by (metis prod.collapse)
  from tryBlock_failure [OF this] show ?thesis by blast
next
  case (Inr r)
  then have "tryBlock e p = (fst (tryBlock e p), Inr r)" by (metis prod.collapse)
  from tryBlock_success [OF this] show ?thesis by (auto simp: noUpdate_def)
qed

text \<open>When a run returns, and when it throws at a chunk.\<close>

lemma run_returns:
  assumes "extractedText e p = Some text"
    and "truthyString (voiceStoragePath p) = Some path"
    and "length outs = length (splitText text 4000)"
    and "\<forall>i<length (splitText text 4000).
           segmentAudio e (storageGetPublicUrl e path) i (splitText text 4000 ! i) = Inr (outs ! i)"
    and "storageUpload e (js ''output/'' @ jobId p @ js ''/audiobook.wav'') (concat outs) = None"
  shows "snd (generateAudiobook e p) =
           Inr \<lparr>success = True, resultJobId = jobId p,
                outputPath = js ''output/'' @ jobId p @ js ''/audiobook.wav''\<rparr>"
proof -
  have "snd (tryBlock e p) =
           Inr \<lparr>success = True, resultJobId = jobId p,
                outputPath = js ''output/'' @ jobId p @ js ''/audiobook.wav''\<rparr>"
  proof (cases rule: tryBlock_cases [of e p])
    case (atExtract tr t)
    with assms(1) stepExtractText_result [of e p "[]" "text"] show ?thesis by simp
  next
    case (atVoice tr1 tx tr t)
    with assms(2) stepVoiceSample_result [of e p tr1] show ?thesis by simp
  next
    case (atSynth tr1 tx tr2 url tr t)
    from stage_synthesis_failed [OF atSynth(1-3)] assms(1,2,4) show ?thesis by auto
  next
    case (atPublish tr1 tx tr2 url tr3 segs)
    from stage_synthesized [OF atPublish(1-3)] assms(1,2) have
      s: "tx = text" "url = storageGetPublicUrl e path" "length segs = length (splitText text 4000)"
      "\<forall>i<length (splitText text 4000). segmentAudio e url i (splitText text 4000 ! i) = Inr (segs ! i)"
      by auto
    have "segs = outs"
    proof (rule nth_equalityI)
      show "length segs = length outs" using s(3) assms(3) by simp
    next
      fix i assume "i < length segs"
      then show "segs ! i = outs ! i" using s assms(4) by auto
    qed
    with atPublish(4) assms(5) stepPublish_result [of e p segs tr3] show ?thesis by simp
  qed
  then show ?thesis using generateAudiobook_eq [of e p] by simp
qed

lemma run_throws_at_chunk:
  assumes "extractedText e p = Some text"
    and "truthyString (voiceStoragePath p) = Some path"
    and "k < length (splitText text 4000)"
    and "\<forall>j<k. \<exists>b. segmentAudio e (storageGetPublicUrl e path) j (splitText text 4000 ! j) = Inr b"
    and "segmentAudio e (storageGetPublicUrl e path) k (splitText text 4000 ! k) = Inl t"
  shows "snd (tryBlock e p) = Inl t \<and>
         replicateCalls (fst (tryBlock e p)) =
           map (\<lambda>c. (f5ttsModelOf e, c, storageGetPublicUrl e path)) (take (Suc k) (splitText text 4000)) \<and>
         uploads (fst (tryBlock e p)) = []"
proof (cases rule: tryBlock_cases [of e p])
  case (atExtract tr t)
  with assms(1) stepExtractText_result [of e p "[]" "text"] show ?thesis by simp
next
  case (atVoice tr1 tx tr t)
  with assms(2) stepVoiceSample_result [of e p tr1] show ?thesis by simp
next
  case (atSynth tr1 tx tr2 url tr t')
  from stage_synthesis_failed [OF atSynth(1-3)] assms(1,2) obtain k' where
    s: "tx = text" "url = storageGetPublicUrl e path" "k' < length (splitText text 4000)"
    "\<forall>j<k'. \<exists>b. segmentAudio e url j (splitText text 4000 ! j) = Inr b"
    "segmentAudio e url k' (splitText text 4000 ! k') = Inl t'"
    "replicateCalls tr = map (\<lambda>c. (f5ttsModelOf e, c, url)) (take (Suc k') (splitText text 4000))"
    "uploads tr = []"
    by auto
  have "\<not> k' < k" using s(2,5) assms(4) by auto
  moreover have "\<not> k < k'" using s(2,4) assms(5) by auto
  ultimately have "k' = k" by simp
  with s assms(5) atSynth(4) show ?thesis by simp
next
  case (atPublish tr1 tx tr2 url tr3 segs)
  from stage_synthesized [OF atPublish(1-3)] assms(1,2,3,5) show ?thesis by auto
qed

lemma uploads_mem: "(path, b) \<in> set (uploads tr) \<longleftrightarrow> StorageUpload path b \<in> set tr"
  by (induction tr rule: uploads.induct) auto

lemma run_returns_trace:
  assumes "extractedText e p = Some text"
    and "truthyString (voiceStoragePath p) = Some path"
    and "length outs = length (splitText text 4000)"
    and "\<forall>i<length (splitText text 4000).
           segmentAudio e (storageGetPublicUrl e path) i (splitText text 4000 ! i) = Inr (outs ! i)"
    and "storageUpload e (js ''output/'' @ jobId p @ js ''/audiobook.wav'') (concat outs) = None"
  shows "uploads (fst (generateAudiobook e p)) =
           [(js ''output/'' @ jobId p @ js ''/audiobook.wav'', concat outs)] \<and>
         replicateCalls (fst (generateAudiobook e p)) =
           map (\<lambda>c. (f5ttsModelOf e, c, storageGetPublicUrl e path)) (splitText text 4000)"
proof -
  from run_returns [OF assms] have "snd (tryBlock e p) =
      Inr \<lparr>success = True, resultJobId = jobId p,
           outputPath = js ''output/'' @ jobId p @ js ''/audiobook.wav''\<rparr>"
    using generateAudiobook_eq [of e p] by simp
  then have "tryBlock e p = (fst (tryBlock e p),
      Inr \<lparr>success = True, resultJobId = jobId p,
           outputPath = js ''output/'' @ jobId p @ js ''/audiobook.wav''\<rparr>)"
    by (metis prod.collapse)
  from tryBlock_success [OF this] assms(1,2) obtain outs' where
    o: "length outs' = length (splitText text 4000)"
      "\<forall>i<length (splitText text 4000).
          segmentAudio e (storageGetPublicUrl e path) i (splitText text 4000 ! i) = Inr (outs' ! i)"
      "replicateCalls (fst (tryBlock e p)) =
         map (\<lambda>c. (f5ttsModelOf e, c, storageGetPublicUrl e path)) (splitText text 4000)"
      "uploads (fst (tryBlock e p)) = [(js ''output/'' @ jobId p @ js ''/audiobook.wav'', concat outs')]"
    by auto
  have "outs' = outs"
  proof (rule nth_equalityI)
    show "length outs' = length outs" using o(1) assms(3) by simp
  next
    fix i assume "i < length outs'"
    then show "outs' ! i = outs ! i" using o(1,2) assms(4) by auto
  qed
  with o show ?thesis using generateAudiobook_eq [of e p] by simp
qed

lemma generateAudiobook_catch:
  assumes "snd (tryBlock e p) = Inl err"
  shows "\<exists>rest. fst (generateAudiobook e p) =
           fst (tryBlock e p) @
           LoggerError (js ''Audiobook generation failed'')
             [(js ''jobId'', jobId p), (js ''error'', messageOf err)] #
           UpdateJob (jobId p) (noUpdate\<lparr>status := Some Failed, error := Some (messageOf err)\<rparr>) #
           rest \<and> list_all isRecorderWarning rest"
proof -
  from assms have t: "tryBlock e p = (fst (tryBlock e p), Inl err)" by (metis prod.collapse)
  let ?tr = "fst (tryBlock e p) @ [LoggerError (js ''Audiobook generation failed'')
             [(js ''jobId'', jobId p), (js ''error'', messageOf err)]]"
  let ?u = "noUpdate\<lparr>status := Some Failed, error := Some (messageOf err)\<rparr>"
  have g: "fst (generateAudiobook e p) = updateJob e (jobId p) ?u ?tr"
    by (subst generateAudiobook_def, subst t) (simp add: Let_def messageOf_def)
  from updateJob_cases [of e "jobId p" ?u ?tr] show ?thesis
  proof
    assume "updateJob e (jobId p) ?u ?tr = ?tr @ [UpdateJob (jobId p) ?u]"
    with g show ?thesis by (intro exI [of _ "[]"]) simp
  next
    assume "\<exists>m. updateJob e (jobId p) ?u ?tr =
       ?tr @ [UpdateJob (jobId p) ?u, LoggerWarn (js ''Failed to update job status'')
                     [(js ''jobId'', jobId p), (js ''error'', m)]]"
    then obtain m where "updateJob e (jobId p) ?u ?tr =
       ?tr @ [UpdateJob (jobId p) ?u, LoggerWarn (js ''Failed to update job status'')
                     [(js ''jobId'', jobId p), (js ''error'', m)]]" by blast
    with g show ?thesis
      by (intro exI [of _ "[LoggerWarn (js ''Failed to update job status'')
                     [(js ''jobId'', jobId p), (js ''error'', m)]]"]) simp
  qed
qed

text \<open>In every run the model is called for an initial part of the chunks, in order.\<close>

lemma calls_prefix:
  assumes "extractedText e p = Some text" and "truthyString (voiceStoragePath p) = Some path"
  shows "\<exists>k\<le>length (splitText text 4000).
           replicateCalls (fst (generateAudiobook e p)) =
             map (\<lambda>c. (f5ttsModelOf e, c, storageGetPublicUrl e path)) (take k (splitText text 4000))"
proof (cases rule: tryBlock_cases [of e p])
  case (atExtract tr t)
  with assms(1) stepExtractText_result [of e p "[]" "text"] show ?thesis by simp
next
  case (atVoice tr1 tx tr t)
  with assms(2) stepVoiceSample_result [of e p tr1] show ?thesis by simp
next
  case (atSynth tr1 tx tr2 url tr t)
  from stage_synthesis_failed [OF atSynth(1-3)] assms obtain k where
    s: "k < length (splitText text 4000)"
    "replicateCalls tr =
       map (\<lambda>c. (f5ttsModelOf e, c, storageGetPublicUrl e path)) (take (Suc k) (splitText text 4000))"
    by auto
  from s atSynth(4) generateAudiobook_eq [of e p] show ?thesis
    by (intro exI [of _ "Suc k"]) simp
next
  case (atPublish tr1 tx tr2 url tr3 segs)
  from stage_synthesized [OF atPublish(1-3)] assms have
    "replicateCalls tr3 =
       map (\<lambda>c. (f5ttsModelOf e, c, storageGetPublicUrl e path)) (splitText text 4000)"
    by auto
  with atPublish(4) generateAudiobook_eq [of e p] stepPublish_calls [of e p segs tr3] show ?thesis
    by (intro exI [of _ "length (splitText text 4000)"]) simp
qed

text \<open>A run whose payload has no direct voice sample.\<close>

lemma run_without_voice_sample:
  assumes "extractedText e p = Some text" and "truthyString (voiceStoragePath p) = None"
  shows "snd (generateAudiobook e p) =
           Inl (ErrorObj (if truthyString (videoId p) = None then js ''No voice sample provided''
              else js ''YouTube audio extraction requires yt-dlp. Please upload a voice sample directly for now.'')) \<and>
         replicateCalls (fst (generateAudiobook e p)) = [] \<and>
         progressWrites (fst (generateAudiobook e p)) = [5, 10, 25]"
proof (cases rule: tryBlock_cases [of e p])
  case (atExtract tr t)
  with assms(1) stepExtractText_result [of e p "[]" "text"] show ?thesis by simp
next
  case (atVoice tr1 tx tr t)
  have r: "snd (tryBlock e p) =
           Inl (ErrorObj (if truthyString (videoId p) = None then js ''No voice sample provided''
              else js ''YouTube audio extraction requires yt-dlp. Please upload a voice sample directly for now.''))"
    using atVoice(2,3) assms(2) stepVoiceSample_result [of e p tr1] by simp
  have c: "replicateCalls (fst (tryBlock e p)) = []"
    using atVoice stepExtractText_calls [of e p "[]"] stepVoiceSample_calls [of e p tr1] by simp
  have w: "jobWrites (fst (tryBlock e p)) =
      [noUpdate\<lparr>status := Some Processing, progress := Some 5\<rparr>, noUpdate\<lparr>progress := Some 10\<rparr>,
       noUpdate\<lparr>progress := Some 25\<rparr>]"
    using atVoice assms(2) stepExtractText_writes [of e p "[]"] stepVoiceSample_writes [of e p tr1]
    by simp
  from r c w generateAudiobook_eq [of e p] show ?thesis
    by (simp add: progressWrites_def noUpdate_def)
next
  case (atSynth tr1 tx tr2 url tr t)
  with assms(2) stepVoiceSample_result [of e p tr1] show ?thesis by simp
next
  case (atPublish tr1 tx tr2 url tr3 segs)
  with assms(2) stepVoiceSample_result [of e p tr1] show ?thesis by simp
qed

text \<open>A run whose payload has a direct voice sample.\<close>

lemma run_with_voice_sample:
  assumes "extractedText e p = Some text" and "truthyString (voiceStoragePath p) = Some path"
  shows "(\<exists>rest. progressWrites (fst (generateAudiobook e p)) = [5, 10, 25, 35] @ rest) \<and>
         (\<exists>calls. replicateCalls (fst (generateAudiobook e p)) =
            (f5ttsModelOf e, splitText text 4000 ! 0, storageGetPublicUrl e path) # calls)"
proof -
  have hd: "\<And>f k. map f (take (Suc k) (splitText text 4000)) =
              f (splitText text 4000 ! 0) # map f (take k (tl (splitText text 4000)))"
    using splitText_not_Nil [of "text" 4000] by (cases "splitText text 4000") simp_all
  have hd': "\<And>f. map f (splitText text 4000) =
              f (splitText text 4000 ! 0) # map f (tl (splitText text 4000))"
    using splitText_not_Nil [of "text" 4000] by (cases "splitText text 4000") simp_all
  show ?thesis
  proof (cases rule: tryBlock_cases [of e p])
    case (atExtract tr t)
    with assms(1) stepExtractText_result [of e p "[]" "text"] show ?thesis by simp
  next
    case (atVoice tr1 tx tr t)
    with assms(2) stepVoiceSample_result [of e p tr1] show ?thesis by simp
  next
    case (atSynth tr1 tx tr2 url tr t)
    from stage_synthesis_failed [OF atSynth(1-3)] assms obtain k where
      s: "tx = text" "url = storageGetPublicUrl e path"
      "replicateCalls tr = map (\<lambda>c. (f5ttsModelOf e, c, url)) (take (Suc k) (splitText text 4000))"
      "jobWrites tr =
          [noUpdate\<lparr>status := Some Processing, progress := Some 5\<rparr>, noUpdate\<lparr>progress := Some 10\<rparr>,
           noUpdate\<lparr>progress := Some 25\<rparr>, noUpdate\<lparr>progress := Some 35\<rparr>] @
          map (\<lambda>j. noUpdate\<lparr>progress := Some (chunkProgress (fround e) j (length (splitText text 4000)))\<rparr>)
            [0..<k]"
      by auto
    from s(4) atSynth(4) generateAudiobook_eq [of e p]
    have "\<exists>rest. progressWrites (fst (generateAudiobook e p)) = [5, 10, 25, 35] @ rest"
      by (simp add: progressWrites_def progressValues_append)
    moreover from s(2,3) atSynth(4) generateAudiobook_eq [of e p]
    have "\<exists>calls. replicateCalls (fst (generateAudiobook e p)) =
            (f5ttsModelOf e, splitText text 4000 ! 0, storageGetPublicUrl e path) # calls"
      by (simp add: hd)
    ultimately show ?thesis by blast
  next
    case (atPublish tr1 tx tr2 url tr3 segs)
    from stage_synthesized [OF atPublish(1-3)] assms have
      s: "tx = text" "url = storageGetPublicUrl e path"
      "replicateCalls tr3 = map (\<lambda>c. (f5ttsModelOf e, c, url)) (splitText text 4000)"
      "jobWrites tr3 =
       [noUpdate\<lparr>status := Some Processing, progress := Some 5\<rparr>, noUpdate\<lparr>progress := Some 10\<rparr>,
        noUpdate\<lparr>progress := Some 25\<rparr>, noUpdate\<lparr>progress := Some 35\<rparr>] @
       map (\<lambda>j. noUpdate\<lparr>progress := Some (chunkProgress (fround e) j (length (splitText text 4000)))\<rparr>)
         [0..<length (splitText text 4000)]"
      by auto
    from s(4) atPublish(4) generateAudiobook_eq [of e p] stepPublish_writes [of e p segs tr3]
    have "\<exists>rest. progressWrites (fst (generateAudiobook e p)) = [5, 10, 25, 35] @ rest"
      by (simp add: progressWrites_def progressValues_append)
    moreover from s(2,3) atPublish(4) generateAudiobook_eq [of e p] stepPublish_calls [of e p segs tr3]
    have "\<exists>calls. replicateCalls (fst (generateAudiobook e p)) =
            (f5ttsModelOf e, splitText text 4000 ! 0, storageGetPublicUrl e path) # calls"
      by (simp add: hd')
    ultimately show ?thesis by blast
  qed
qed

text \<open>The URLs fetched by a run.\<close>

lemma generateAudiobook_fetches:
  "fetches (fst (generateAudiobook e p)) = fetches (fst (tryBlock e p))"
  by (cases "tryBlock e p")
     (auto simp: generateAudiobook_def Let_def fetches_append split: sum.splits)

text \<open>The URLs fetched in a run: those of the chunks for which the model was called.\<close>

lemma tryBlock_fetches:
  assumes "extractedText e p = Some tx" and "truthyString (voiceStoragePath p) = Some path"
  shows "fetches (fst (tryBlock e p)) =
           concat (map (\<lambda>j. chunkFetches e (storageGetPublicUrl e path) j (splitText tx 4000 ! j))
                     [0..<length (replicateCalls (fst (tryBlock e p)))])"
proof -
  have loop: "\<And>tr1 tr2 url tr3 r.
     stepExtractText e p [] = (tr1, Inr tx) \<Longrightarrow> stepVoiceSample e p tr1 = (tr2, Inr url) \<Longrightarrow>
     stepSynthesize e p tx url tr2 = (tr3, r) \<Longrightarrow>
     url = storageGetPublicUrl e path \<and>
     fetches tr3 = concat (map (\<lambda>j. chunkFetches e url j (splitText tx 4000 ! j))
                     [0..<length (replicateCalls tr3)])"
  proof -
    fix tr1 tr2 url tr3 r
    assume 1: "stepExtractText e p [] = (tr1, Inr tx)" and 2: "stepVoiceSample e p tr1 = (tr2, Inr url)"
      and 3: "stepSynthesize e p tx url tr2 = (tr3, r)"
    from 1 have c1: "replicateCalls tr1 = []" "fetches tr1 = []"
      using stepExtractText_calls [of e p "[]"] stepExtractText_fetches [of e p "[]"] by simp_all
    from 2 c1 have c2: "replicateCalls tr2 = []" "fetches tr2 = []"
      using stepVoiceSample_calls [of e p tr1] stepVoiceSample_fetches [of e p tr1] by simp_all
    from 2 assms(2) have url: "url = storageGetPublicUrl e path"
      using stepVoiceSample_result [of e p tr1] by simp
    from 3 have "synthLoop e (jobId p) (f5ttsModelOf e) url (length (splitText tx 4000)) 0 (splitText tx 4000) []
       (tr2 @ [LoggerInfo (js ''Processing '' @ showNat (length (splitText tx 4000)) @ js '' text chunks'') []])
     = (tr3, r)"
      by (simp add: stepSynthesize_eq)
    from synthLoop_fetches [OF this] c2 url
    show "url = storageGetPublicUrl e path \<and>
     fetches tr3 = concat (map (\<lambda>j. chunkFetches e url j (splitText tx 4000 ! j))
                     [0..<length (replicateCalls tr3)])"
      by (auto simp: replicateCalls_append fetches_append)
  qed
  show ?thesis
  proof (cases rule: tryBlock_cases [of e p])
    case (atExtract tr t)
    with assms(1) stepExtractText_result [of e p "[]" tx] show ?thesis by simp
  next
    case (atVoice tr1 tx' tr t)
    with assms(2) stepVoiceSample_result [of e p tr1] show ?thesis by simp
  next
    case (atSynth tr1 tx' tr2 url tr t)
    with assms(1) stepExtractText_result [of e p "[]" tx] have "tx' = tx" by simp
    with atSynth loop [of tr1 tr2 url tr "Inl t"] show ?thesis by simp
  next
    case (atPublish tr1 tx' tr2 url tr3 segs)
    with assms(1) stepExtractText_result [of e p "[]" tx] have "tx' = tx" by simp
    with atPublish loop [of tr1 tr2 url tr3 "Inr segs"]
      stepPublish_fetches [of e p segs tr3] stepPublish_calls [of e p segs tr3]
    show ?thesis by simp
  qed
qed

text \<open>A run that throws before the synthesis.\<close>

lemma run_extraction_fails:
  assumes "extractedText e p = None"
  shows "replicateCalls (fst (tryBlock e p)) = [] \<and> fetches (fst (tryBlock e p)) = [] \<and>
         uploads (fst (tryBlock e p)) = [] \<and>
         jobWrites (fst (tryBlock e p)) =
           [noUpdate\<lparr>status := Some Processing, progress := Some 5\<rparr>, noUpdate\<lparr>progress := Some 10\<rparr>]"
proof -
  have no: "stepExtractText e p [] = (tr1, Inr tx) \<Longrightarrow> False" for tr1 tx
    using assms stepExtractText_result [of e p "[]" tx] by simp
  show ?thesis
  proof (cases rule: tryBlock_cases [of e p])
    case (atExtract tr t)
    with stepExtractText_calls [of e p "[]"] stepExtractText_fetches [of e p "[]"]
      stepExtractText_writes [of e p "[]"]
    show ?thesis by simp
  next
    case (atVoice tr1 tx tr t)
    with no show ?thesis by blast
  next
    case (atSynth tr1 tx tr2 url tr t)
    with no show ?thesis by blast
  next
    case (atPublish tr1 tx tr2 url tr3 segs)
    with no show ?thesis by blast
  qed
qed

lemma run_voice_fails:
  assumes "extractedText e p = Some tx" and "truthyString (voiceStoragePath p) = None"
  shows "replicateCalls (fst (tryBlock e p)) = [] \<and> fetches (fst (tryBlock e p)) = [] \<and>
         uploads (fst (tryBlock e p)) = [] \<and>
         jobWrites (fst (tryBlock e p)) =
           [noUpdate\<lparr>status := Some Processing, progress := Some 5\<rparr>, noUpdate\<lparr>progress := Some 10\<rparr>,
            noUpdate\<lparr>progress := Some 25\<rparr>]"
proof (cases rule: tryBlock_cases [of e p])
  case (atExtract tr t)
  with assms(1) stepExtractText_result [of e p "[]" tx] show ?thesis by simp
next
  case (atVoice tr1 tx' tr t)
  with assms(2) stepExtractText_calls [of e p "[]"] stepExtractText_fetches [of e p "[]"]
    stepExtractText_writes [of e p "[]"]
    stepVoiceSample_calls [of e p tr1] stepVoiceSample_fetches [of e p tr1]
    stepVoiceSample_writes [of e p tr1]
  show ?thesis by simp
next
  case (atSynth tr1 tx' tr2 url tr t)
  with assms(2) stepVoiceSample_result [of e p tr1] show ?thesis by simp
next
  case (atPublish tr1 tx' tr2 url tr3 segs)
  with assms(2) stepVoiceSample_result [of e p tr1] show ?thesis by simp
qed

text \<open>A run that throws at chunk \<open>k\<close>: what has been written to the job by then.\<close>

lemma run_throws_at_chunk_writes:
  assumes "extractedText e p = Some tx"
    and "truthyString (voiceStoragePath p) = Some path"
    and "k < length (splitText tx 4000)"
    and "\<forall>j<k. \<exists>b. segmentAudio e (storageGetPublicUrl e path) j (splitText tx 4000 ! j) = Inr b"
    and "segmentAudio e (storageGetPublicUrl e path) k (splitText tx 4000 ! k) = Inl t"
  shows "jobWrites (fst (tryBlock e p)) =
          [noUpdate\<lparr>status := Some Processing, progress := Some 5\<rparr>, noUpdate\<lparr>progress := Some 10\<rparr>,
           noUpdate\<lparr>progress := Some 25\<rparr>, noUpdate\<lparr>progress := Some 35\<rparr>] @
          map (\<lambda>j. noUpdate\<lparr>progress := Some (chunkProgress (fround e) j (length (splitText tx 4000)))\<rparr>)
            [0..<k]"
proof (cases rule: tryBlock_cases [of e p])
  case (atExtract tr t)
  with assms(1) stepExtractText_result [of e p "[]" tx] show ?thesis by simp
next
  case (atVoice tr1 tx' tr t)
  with assms(2) stepVoiceSample_result [of e p tr1] show ?thesis by simp
next
  case (atSynth tr1 tx' tr2 url tr t')
  from stage_synthesis_failed [OF atSynth(1-3)] assms(1,2) obtain k' where
    s: "tx' = tx" "url = storageGetPublicUrl e path" "k' < length (splitText tx 4000)"
    "\<forall>j<k'. \<exists>b. segmentAudio e url j (splitText tx 4000 ! j) = Inr b"
    "segmentAudio e url k' (splitText tx 4000 ! k') = Inl t'"
    "jobWrites tr =
          [noUpdate\<lparr>status := Some Processing, progress := Some 5\<rparr>, noUpdate\<lparr>progress := Some 10\<rparr>,
           noUpdate\<lparr>progress := Some 25\<rparr>, noUpdate\<lparr>progress := Some 35\<rparr>] @
          map (\<lambda>j. noUpdate\<lparr>progress := Some (chunkProgress (fround e) j (length (splitText tx 4000)))\<rparr>)
            [0..<k']"
    by auto
  have "\<not> k' < k" using s(2,5) assms(4) by auto
  moreover have "\<not> k < k'" using s(2,4) assms(5) by auto
  ultimately have "k' = k" by simp
  with s atSynth(4) show ?thesis by simp
next
  case (atPublish tr1 tx' tr2 url tr3 segs)
  from stage_synthesized [OF atPublish(1-3)] assms(1,2,3,5) show ?thesis by auto
qed

text \<open>A run in which every chunk is synthesised and the upload fails.\<close>

lemma run_upload_fails:
  assumes "extractedText e p = Some tx"
    and "truthyString (voiceStoragePath p) = Some path"
    and "length outs = length (splitText tx 4000)"
    and "\<forall>i<length (splitText tx 4000).
           segmentAudio e (storageGetPublicUrl e path) i (splitText tx 4000 ! i) = Inr (outs ! i)"
  shows "snd (tryBlock e p) =
           (case storageUpload e (js ''output/'' @ jobId p @ js ''/audiobook.wav'') (concat outs) of
              Some message \<Rightarrow> Inl (ErrorObj (js ''Failed to upload audiobook: '' @ message))
            | None \<Rightarrow> Inr \<lparr>success = True, resultJobId = jobId p,
                      outputPath = js ''output/'' @ jobId p @ js ''/audiobook.wav''\<rparr>) \<and>
         replicateCalls (fst (tryBlock e p)) =
           map (\<lambda>c. (f5ttsModelOf e, c, storageGetPublicUrl e path)) (splitText tx 4000) \<and>
         uploads (fst (tryBlock e p)) = [(js ''output/'' @ jobId p @ js ''/audiobook.wav'', concat outs)] \<and>
         (\<forall>t. snd (tryBlock e p) = Inl t \<longrightarrow>
           jobWrites (fst (tryBlock e p)) =
             [noUpdate\<lparr>status := Some Processing, progress := Some 5\<rparr>, noUpdate\<lparr>progress := Some 10\<rparr>,
              noUpdate\<lparr>progress := Some 25\<rparr>, noUpdate\<lparr>progress := Some 35\<rparr>] @
             map (\<lambda>j. noUpdate\<lparr>progress := Some (chunkProgress (fround e) j (length (splitText tx 4000)))\<rparr>)
               [0..<length (splitText tx 4000)] @
             [noUpdate\<lparr>progress := Some 90\<rparr>])"
proof (cases rule: tryBlock_cases [of e p])
  case (atExtract tr t)
  with assms(1) stepExtractText_result [of e p "[]" tx] show ?thesis by simp
next
  case (atVoice tr1 tx' tr t)
  with assms(2) stepVoiceSample_result [of e p tr1] show ?thesis by simp
next
  case (atSynth tr1 tx' tr2 url tr t)
  from stage_synthesis_failed [OF atSynth(1-3)] assms(1,2,4) show ?thesis by auto
next
  case (atPublish tr1 tx' tr2 url tr3 segs)
  from stage_synthesized [OF atPublish(1-3)] assms(1,2) have
    s: "tx' = tx" "url = storageGetPublicUrl e path" "length segs = length (splitText tx 4000)"
    "\<forall>i<length (splitText tx 4000). segmentAudio e url i (splitText tx 4000 ! i) = Inr (segs ! i)"
    "replicateCalls tr3 = map (\<lambda>c. (f5ttsModelOf e, c, url)) (splitText tx 4000)"
    "uploads tr3 = []"
    "jobWrites tr3 =
       [noUpdate\<lparr>status := Some Processing, progress := Some 5\<rparr>, noUpdate\<lparr>progress := Some 10\<rparr>,
        noUpdate\<lparr>progress := Some 25\<rparr>, noUpdate\<lparr>progress := Some 35\<rparr>] @
       map (\<lambda>j. noUpdate\<lparr>progress := Some (chunkProgress (fround e) j (length (splitText tx 4000)))\<rparr>)
         [0..<length (splitText tx 4000)]"
    by auto
  have eq: "segs = outs"
  proof (rule nth_equalityI)
    show "length segs = length outs" using s(3) assms(3) by simp
  next
    fix i assume "i < length segs"
    then show "segs ! i = outs ! i" using s assms(4) by auto
  qed
  have r: "snd (tryBlock e p) =
           (case storageUpload e (js ''output/'' @ jobId p @ js ''/audiobook.wav'') (concat outs) of
              Some message \<Rightarrow> Inl (ErrorObj (js ''Failed to upload audiobook: '' @ message))
            | None \<Rightarrow> Inr \<lparr>success = True, resultJobId = jobId p,
                      outputPath = js ''output/'' @ jobId p @ js ''/audiobook.wav''\<rparr>)"
    using atPublish(4) eq stepPublish_result [of e p segs tr3] by simp
  have c: "replicateCalls (fst (tryBlock e p)) =
           map (\<lambda>c. (f5ttsModelOf e, c, storageGetPublicUrl e path)) (splitText tx 4000)"
     "uploads (fst (tryBlock e p)) = [(js ''output/'' @ jobId p @ js ''/audiobook.wav'', concat outs)]"
    using atPublish(4) eq s stepPublish_calls [of e p segs tr3] by simp_all
  have w: "\<forall>t. snd (tryBlock e p) = Inl t \<longrightarrow>
           jobWrites (fst (tryBlock e p)) =
             [noUpdate\<lparr>status := Some Processing, progress := Some 5\<rparr>, noUpdate\<lparr>progress := Some 10\<rparr>,
              noUpdate\<lparr>progress := Some 25\<rparr>, noUpdate\<lparr>progress := Some 35\<rparr>] @
             map (\<lambda>j. noUpdate\<lparr>progress := Some (chunkProgress (fround e) j (length (splitText tx 4000)))\<rparr>)
               [0..<length (splitText tx 4000)] @
             [noUpdate\<lparr>progress := Some 90\<rparr>]"
    using atPublish(4) s(7) stepPublish_writes [of e p segs tr3] by auto
  from r c w show ?thesis by blast
qed

section \<open>The example runs\<close>

lemmas chunker_eval =
  js_def isWhiteSpace_def isTerminator_def trim_def space_def slice0_def splitText_def jsSplit_def

lemma splitSentences_replicate:
  "\<not> isWhiteSpace c \<Longrightarrow> \<not> isTerminator c \<Longrightarrow> 0 < n \<Longrightarrow>
     splitSentences lb piece (replicate n c @ rest) = splitSentences False (piece @ replicate n c) rest"
proof (induction n arbitrary: lb piece)
  case 0
  then show ?case by simp
next
  case (Suc n)
  show ?case
  proof (cases "n = 0")
    case True
    with Suc.prems show ?thesis by simp
  next
    case False
    with Suc have "splitSentences False (piece @ [c]) (replicate n c @ rest) =
                   splitSentences False ((piece @ [c]) @ replicate n c) rest" by simp
    with Suc.prems show ?thesis by (simp add: replicate_app_Cons_same)
  qed
qed

lemma dropWhile_replicate:
  "\<not> P c \<Longrightarrow> 0 < n \<Longrightarrow> dropWhile P (replicate n c @ rest) = replicate n c @ rest"
  by (cases n) auto

lemma trim_id: "s \<noteq> [] \<Longrightarrow> \<not> isWhiteSpace (hd s) \<Longrightarrow> \<not> isWhiteSpace (last s) \<Longrightarrow> trim s = s"
proof -
  assume a: "s \<noteq> []" "\<not> isWhiteSpace (hd s)" "\<not> isWhiteSpace (last s)"
  then have 1: "dropWhile isWhiteSpace s = s" by (cases s) auto
  from a have "rev s \<noteq> []" "\<not> isWhiteSpace (hd (rev s))" by (simp_all add: hd_rev)
  then have "dropWhile isWhiteSpace (rev s) = rev s" by (cases "rev s") auto
  with 1 show ?thesis by (simp add: trim_def)
qed

lemma a_plain: "\<not> isWhiteSpace 0x61" "\<not> isTerminator 0x61" "\<not> isWhiteSpace 0x62" "\<not> isTerminator 0x62"
  by (simp_all add: isWhiteSpace_def isTerminator_def)

lemma jsSplit_longText:
  "jsSplit longText = [replicate 3995 0x61 @ js ''.'', replicate 3995 0x62 @ js ''.'', js ''End.'']"
proof -
  have "jsSplit longText =
          splitSentences False (replicate 3995 0x61) (js ''. '' @ replicate 3995 0x62 @ js ''. End.'')"
    unfolding jsSplit_def longText_def
    using splitSentences_replicate [of "0x61" 3995 False "[]"] a_plain by simp
  also have "\<dots> = (replicate 3995 0x61 @ js ''.'') #
          splitSentences False [] (replicate 3995 0x62 @ js ''. End.'')"
    using dropWhile_replicate [of isWhiteSpace "0x62" 3995] a_plain
    by (simp add: js_def isWhiteSpace_def isTerminator_def)
  also have "splitSentences False [] (replicate 3995 0x62 @ js ''. End.'') =
          splitSentences False (replicate 3995 0x62) (js ''. End.'')"
    using splitSentences_replicate [of "0x62" 3995 False "[]"] a_plain by simp
  also have "\<dots> = [replicate 3995 0x62 @ js ''.'', js ''End.'']"
    by (simp add: js_def isWhiteSpace_def isTerminator_def)
  finally show ?thesis .
qed

lemma trim_long:
  "trim (replicate 3995 0x61 @ js ''.'') = replicate 3995 0x61 @ js ''.''"
  "trim (replicate 3995 0x62 @ js ''.'') = replicate 3995 0x62 @ js ''.''"
  "trim (js ''End.'') = js ''End.''"
  using a_plain by (simp_all add: trim_id js_def isWhiteSpace_def hd_append)

lemma trim_long_space:
  "trim (replicate 3995 0x61 @ js ''.'' @ [space]) = replicate 3995 0x61 @ js ''.''"
  "trim (replicate 3995 0x62 @ js ''.'' @ [space]) = replicate 3995 0x62 @ js ''.''"
  "trim (js ''End.'' @ [space]) = js ''End.''"
  using trim_snoc_ws [OF isWhiteSpace_space, of "replicate 3995 0x61 @ js ''.''"]
    trim_snoc_ws [OF isWhiteSpace_space, of "replicate 3995 0x62 @ js ''.''"]
    trim_snoc_ws [OF isWhiteSpace_space, of "js ''End.''"]
  by (simp_all add: trim_long)

lemma splitText_longText:
  "splitText longText 4000 = [replicate 3995 0x61 @ js ''.'', replicate 3995 0x62 @ js ''.'', js ''End.'']"
proof -
  have ne: "replicate 3995 (0x61 :: jschar) @ js ''.'' \<noteq> []" "replicate 3995 (0x62 :: jschar) @ js ''.'' \<noteq> []"
    "js ''End.'' \<noteq> []"
    by (simp_all add: js_def)
  have len: "length (js ''.'') = 1" "length (js ''End.'') = 4" by (simp_all add: js_def)
  show ?thesis
    using ne
    by (simp add: splitText_def jsSplit_longText trim_long trim_long_space len)
qed

lemma trim_longText: "trim longText \<noteq> []"
proof -
  have "(0x61 :: jschar) \<in> set longText" by (simp add: longText_def)
  then show ?thesis using a_plain(1) by (auto simp: trim_Nil_iff)
qed

lemma extractedText_envOk:
  "extractedText envOk payloadUpload = Some longText"
  "extractedText envOk payloadVideo = Some longText"
  "extractedText envChunkFails payloadUpload = Some longText"
  by (simp_all add: extractedText_def envOk_def envChunkFails_def trim_longText)

lemma voice_payloadUpload:
  "truthyString (voiceStoragePath payloadUpload) = Some (js ''voices/v.wav'')"
  by (simp add: truthyString_def payloadUpload_def js_def)

lemma voice_payloadVideo:
  "truthyString (voiceStoragePath payloadVideo) = None"
  "truthyString (videoId payloadVideo) = Some (js ''dQw4w9WgXcQ'')"
  by (simp_all add: truthyString_def payloadVideo_def js_def)

lemma segmentAudio_envOk: "segmentAudio envOk url i chunk = Inr [of_nat (48 + i)]"
  by (simp add: segmentAudio_def synthesizeChunk_def envOk_def audioUrlOf_def Let_def)

lemma segmentAudio_envChunkFails:
  "segmentAudio envChunkFails url i chunk =
     (if i = 1 then Inl (ErrorObj (js ''Prediction failed'')) else Inr [of_nat (48 + i)])"
  by (simp add: segmentAudio_def synthesizeChunk_def envOk_def envChunkFails_def audioUrlOf_def Let_def)

lemma envOk_fields:
  "storageGetPublicUrl envOk path = js ''https://storage.test/'' @ path"
  "storageUpload envOk path b = None"
  "f5ttsModelOf envOk = js ''f5''"
  "fround envOk = roundDouble"
  "jobId payloadUpload = js ''job-1''"
  "storageGetPublicUrl envChunkFails path = js ''https://storage.test/'' @ path"
  "f5ttsModelOf envChunkFails = js ''f5''"
  by (simp_all add: envOk_def envChunkFails_def f5ttsModelOf_def truthyString_def payloadUpload_def js_def)

lemma run_envOk:
  "snd (generateAudiobook envOk payloadUpload) =
     Inr \<lparr>success = True, resultJobId = js ''job-1'',
          outputPath = js ''output/'' @ js ''job-1'' @ js ''/audiobook.wav''\<rparr>"
proof -
  have "\<forall>i<length (splitText longText 4000).
          segmentAudio envOk (storageGetPublicUrl envOk (js ''voices/v.wav'')) i (splitText longText 4000 ! i)
            = Inr ([[48], [49], [50]] ! i)"
    by (simp add: segmentAudio_envOk splitText_longText less_Suc_eq)
  from run_returns [OF extractedText_envOk(1) voice_payloadUpload _ this]
  show ?thesis by (simp add: splitText_longText envOk_fields)
qed

lemma chunkFails_throws:
  "snd (tryBlock envChunkFails payloadUpload) = Inl (ErrorObj (js ''Prediction failed''))"
proof -
  have "truthyString (voiceStoragePath payloadUpload) = Some (js ''voices/v.wav'')"
    by (rule voice_payloadUpload)
  from run_throws_at_chunk [OF extractedText_envOk(3) this, of 1 "ErrorObj (js ''Prediction failed'')"]
  show ?thesis by (simp add: splitText_longText segmentAudio_envChunkFails)
qed

lemma chunkProgress_double_3:
  "chunkProgress roundDouble 0 (Suc (Suc (Suc 0))) = 51"
  "chunkProgress roundDouble (Suc 0) (Suc (Suc (Suc 0))) = 68"
  "chunkProgress roundDouble (Suc (Suc 0)) (Suc (Suc (Suc 0))) = 85"
proof -
  have a: "21 / 64 \<le> roundDouble (1 / 3) \<and> roundDouble (1 / 3) \<le> 43 / 128"
    using roundDouble_between [of 21 43 "-6" "1 / 3" "-7"] by simp
  then have "65 / 4 \<le> roundDouble (1 / 3) * 50" "roundDouble (1 / 3) * 50 \<le> 135 / 8" by simp_all
  then have "65 / 4 \<le> roundDouble (roundDouble (1 / 3) * 50) \<and>
             roundDouble (roundDouble (1 / 3) * 50) \<le> 135 / 8"
    using roundDouble_between [of 65 135 "-2" "roundDouble (1 / 3) * 50" "-3"] by simp
  then have "\<lfloor>roundDouble (roundDouble (1 / 3) * 50)\<rfloor> = 16" by (simp add: floor_eq_iff)
  then show "chunkProgress roundDouble 0 (Suc (Suc (Suc 0))) = 51" by (simp add: chunkProgress_def)
  have b: "85 / 128 \<le> roundDouble (2 / 3) \<and> roundDouble (2 / 3) \<le> 43 / 64"
    using roundDouble_between [of 85 43 "-7" "2 / 3" "-6"] by simp
  then have "33 \<le> roundDouble (2 / 3) * 50" "roundDouble (2 / 3) * 50 \<le> 135 / 4" by simp_all
  then have "33 \<le> roundDouble (roundDouble (2 / 3) * 50) \<and>
             roundDouble (roundDouble (2 / 3) * 50) \<le> 135 / 4"
    using roundDouble_between [of 33 135 0 "roundDouble (2 / 3) * 50" "-2"] by simp
  then have "\<lfloor>roundDouble (roundDouble (2 / 3) * 50)\<rfloor> = 33" by (simp add: floor_eq_iff)
  then show "chunkProgress roundDouble (Suc 0) (Suc (Suc (Suc 0))) = 68" by (simp add: chunkProgress_def)
  show "chunkProgress roundDouble (Suc (Suc 0)) (Suc (Suc (Suc 0))) = 85"
    by (simp add: chunkProgress_def roundDouble_fixed)
qed


text \<open>The runs that throw at the extraction, at the voice sample and at the upload.\<close>

lemma extractedText_envScanned: "extractedText envScanned payloadUpload = None"
  by (simp add: extractedText_def envScanned_def envOk_def trim_def isWhiteSpace_def js_def)

lemma scanned_throws:
  "snd (tryBlock envScanned payloadUpload) =
     Inl (ErrorObj (js ''Could not extract text from PDF. Is it a scanned document?''))"
proof (cases rule: tryBlock_cases [of envScanned payloadUpload])
  case (atExtract tr t)
  have "snd (stepExtractText envScanned payloadUpload []) =
     Inl (ErrorObj (js ''Could not extract text from PDF. Is it a scanned document?''))"
    by (simp add: stepExtractText_def envScanned_def envOk_def Let_def trim_def isWhiteSpace_def js_def)
  with atExtract show ?thesis by simp
next
  case (atVoice tr1 tx tr t)
  with extractedText_envScanned stepExtractText_result [of envScanned payloadUpload "[]" tx]
  show ?thesis by simp
next
  case (atSynth tr1 tx tr2 url tr t)
  with extractedText_envScanned stepExtractText_result [of envScanned payloadUpload "[]" tx]
  show ?thesis by simp
next
  case (atPublish tr1 tx tr2 url tr3 segs)
  with extractedText_envScanned stepExtractText_result [of envScanned payloadUpload "[]" tx]
  show ?thesis by simp
qed

lemma video_throws:
  "snd (tryBlock envOk payloadVideo) =
     Inl (ErrorObj (js
       ''YouTube audio extraction requires yt-dlp. Please upload a voice sample directly for now.''))"
  using run_without_voice_sample [OF extractedText_envOk(2) voice_payloadVideo(1)] voice_payloadVideo(2)
    generateAudiobook_eq [of envOk payloadVideo]
  by simp

lemma envUploadFails_fields:
  "extractedText envUploadFails payloadUpload = Some longText"
  "segmentAudio envUploadFails url i chunk = Inr [of_nat (48 + i)]"
  "storageGetPublicUrl envUploadFails path = js ''https://storage.test/'' @ path"
  "storageUpload envUploadFails path b = Some (js ''Bucket not found'')"
  "f5ttsModelOf envUploadFails = js ''f5''"
  "fround envUploadFails = roundDouble"
  "chunkFetches envUploadFails url i chunk = [js ''https://replicate.test/out'']"
  by (simp_all add: extractedText_def segmentAudio_def synthesizeChunk_def audioUrlOf_def Let_def
      envUploadFails_def envOk_def trim_longText f5ttsModelOf_def truthyString_def chunkFetches_def js_def)

lemma uploadFails_segments:
  "\<forall>i<length (splitText longText 4000).
     segmentAudio envUploadFails (storageGetPublicUrl envUploadFails (js ''voices/v.wav'')) i
       (splitText longText 4000 ! i) = Inr ([[48], [49], [50]] ! i)"
  by (simp add: envUploadFails_fields(2) splitText_longText less_Suc_eq)

lemma uploadFails_throws:
  "snd (tryBlock envUploadFails payloadUpload) =
     Inl (ErrorObj (js ''Failed to upload audiobook: Bucket not found''))"
  using run_upload_fails [OF envUploadFails_fields(1) voice_payloadUpload _ uploadFails_segments]
  by (simp add: splitText_longText envUploadFails_fields js_def)

lemma chunkFetches_envChunkFails:
  "chunkFetches envChunkFails url i chunk = (if i = 1 then [] else [js ''https://replicate.test/out''])"
  "fround envChunkFails = roundDouble"
  by (simp_all add: chunkFetches_def envChunkFails_def envOk_def audioUrlOf_def)

section \<open>Claims\<close>

text \<open>
  C1. In a run that reaches the upload, the model has been called once for every chunk of
  \<open>splitText text 4000\<close>, in the order of the chunks (call number \<open>i\<close> is for chunk \<open>i\<close>, with
  the URL of the voice sample), every chunk has yielded its audio, and the bytes uploaded are
  the concatenation of these audio buffers in that order; nothing else is uploaded. In every
  run at all, the calls made are those for an initial part of the chunks, in order. A run is
  one attempt of the task.
\<close>

theorem synthesis_order:
  assumes "generateAudiobook e p = (tr, res)" and "StorageUpload path audio \<in> set tr"
  shows "(\<exists>text voicePath outs.
     extractedText e p = Some text \<and> truthyString (voiceStoragePath p) = Some voicePath \<and>
     replicateCalls tr =
       map (\<lambda>c. (f5ttsModelOf e, c, storageGetPublicUrl e voicePath)) (splitText text 4000) \<and>
     length outs = length (splitText text 4000) \<and>
     (\<forall>i<length (splitText text 4000).
        segmentAudio e (storageGetPublicUrl e voicePath) i (splitText text 4000 ! i) = Inr (outs ! i)) \<and>
     audio = concat outs \<and>
     uploads tr = [(js ''output/'' @ jobId p @ js ''/audiobook.wav'', concat outs)]) \<and>
   (\<forall>text' path'.
      extractedText e' p' = Some text' \<and> truthyString (voiceStoragePath p') = Some path' \<longrightarrow>
      (\<exists>k\<le>length (splitText text' 4000).
         replicateCalls (fst (generateAudiobook e' p')) =
           map (\<lambda>c. (f5ttsModelOf e', c, storageGetPublicUrl e' path')) (take k (splitText text' 4000))))"
proof -
  from assms have tr: "tr = fst (generateAudiobook e p)" by simp
  from assms(2) have m: "(path, audio) \<in> set (uploads tr)" by (simp add: uploads_mem)
  have u: "uploads tr = uploads (fst (tryBlock e p))"
    and c: "replicateCalls tr = replicateCalls (fst (tryBlock e p))"
    using tr generateAudiobook_eq [of e p] by simp_all
  from m u have "uploads (fst (tryBlock e p)) \<noteq> []" by auto
  from tryBlock_upload [OF this] obtain tx voicePath outs where
    o: "extractedText e p = Some tx" "truthyString (voiceStoragePath p) = Some voicePath"
      "length outs = length (splitText tx 4000)"
      "\<forall>i<length (splitText tx 4000).
          segmentAudio e (storageGetPublicUrl e voicePath) i (splitText tx 4000 ! i) = Inr (outs ! i)"
      "replicateCalls (fst (tryBlock e p)) =
         map (\<lambda>c. (f5ttsModelOf e, c, storageGetPublicUrl e voicePath)) (splitText tx 4000)"
      "uploads (fst (tryBlock e p)) = [(js ''output/'' @ jobId p @ js ''/audiobook.wav'', concat outs)]"
    by blast
  from m u o(6) have a: "audio = concat outs" by simp
  have A: "\<exists>text voicePath outs.
     extractedText e p = Some text \<and> truthyString (voiceStoragePath p) = Some voicePath \<and>
     replicateCalls tr =
       map (\<lambda>c. (f5ttsModelOf e, c, storageGetPublicUrl e voicePath)) (splitText text 4000) \<and>
     length outs = length (splitText text 4000) \<and>
     (\<forall>i<length (splitText text 4000).
        segmentAudio e (storageGetPublicUrl e voicePath) i (splitText text 4000 ! i) = Inr (outs ! i)) \<and>
     audio = concat outs \<and>
     uploads tr = [(js ''output/'' @ jobId p @ js ''/audiobook.wav'', concat outs)]"
    apply (rule exI [of _ tx], rule exI [of _ voicePath], rule exI [of _ outs])
    using o u c a by simp
  have B: "\<forall>text' path'.
      extractedText e' p' = Some text' \<and> truthyString (voiceStoragePath p') = Some path' \<longrightarrow>
      (\<exists>k\<le>length (splitText text' 4000).
         replicateCalls (fst (generateAudiobook e' p')) =
           map (\<lambda>c. (f5ttsModelOf e', c, storageGetPublicUrl e' path')) (take k (splitText text' 4000)))"
    using calls_prefix [of e' p'] by blast
  from A B show ?thesis by blast
qed

text \<open>
  A run over a text of three chunks: three calls, in order, and the upload of the three
  audio buffers concatenated.
\<close>

theorem synthesis_order_witness:
  "StorageUpload (js ''output/job-1/audiobook.wav'') [48, 49, 50]
     \<in> set (fst (generateAudiobook envOk payloadUpload)) \<and>
   splitText longText 4000 =
     [replicate 3995 0x61 @ js ''.'', replicate 3995 0x62 @ js ''.'', js ''End.''] \<and>
   replicateCalls (fst (generateAudiobook envOk payloadUpload)) =
     [(js ''f5'', replicate 3995 0x61 @ js ''.'', js ''https://storage.test/voices/v.wav''),
      (js ''f5'', replicate 3995 0x62 @ js ''.'', js ''https://storage.test/voices/v.wav''),
      (js ''f5'', js ''End.'', js ''https://storage.test/voices/v.wav'')] \<and>
   uploads (fst (generateAudiobook envOk payloadUpload)) =
     [(js ''output/job-1/audiobook.wav'', [48, 49, 50])]"
proof -
  have seg: "\<forall>i<length (splitText longText 4000).
          segmentAudio envOk (storageGetPublicUrl envOk (js ''voices/v.wav'')) i (splitText longText 4000 ! i)
            = Inr ([[48], [49], [50]] ! i)"
    by (simp add: segmentAudio_envOk splitText_longText less_Suc_eq)
  from run_returns_trace [OF extractedText_envOk(1) voice_payloadUpload _ seg]
  have up: "uploads (fst (generateAudiobook envOk payloadUpload)) =
     [(js ''output/job-1/audiobook.wav'', [48, 49, 50])]"
    by (simp add: splitText_longText envOk_fields js_def)
  then have mem: "StorageUpload (js ''output/job-1/audiobook.wav'') [48, 49, 50]
     \<in> set (fst (generateAudiobook envOk payloadUpload))"
    using uploads_mem [of "js ''output/job-1/audiobook.wav''" "[48, 49, 50]"
        "fst (generateAudiobook envOk payloadUpload)"] by simp
  have "generateAudiobook envOk payloadUpload =
          (fst (generateAudiobook envOk payloadUpload), snd (generateAudiobook envOk payloadUpload))"
    by simp
  from synthesis_order [OF this mem] extractedText_envOk(1) voice_payloadUpload
  have "replicateCalls (fst (generateAudiobook envOk payloadUpload)) =
      map (\<lambda>c. (f5ttsModelOf envOk, c, storageGetPublicUrl envOk (js ''voices/v.wav'')))
        (splitText longText 4000)"
    by auto
  then have "replicateCalls (fst (generateAudiobook envOk payloadUpload)) =
     [(js ''f5'', replicate 3995 0x61 @ js ''.'', js ''https://storage.test/voices/v.wav''),
      (js ''f5'', replicate 3995 0x62 @ js ''.'', js ''https://storage.test/voices/v.wav''),
      (js ''f5'', js ''End.'', js ''https://storage.test/voices/v.wav'')]"
    by (simp add: splitText_longText envOk_fields js_def)
  with mem up splitText_longText show ?thesis by blast
qed

text \<open>
  C2 (as amended). When something is thrown inside the \<open>try\<close> block, the run logs the
  error and writes \<open>status = failed\<close> with the message of the error, and nothing else
  happens after the throw but the warning of a failed write; that write is the last write to
  the job, no write before it sets \<open>ready\<close> or \<open>failed\<close>, and no write of the run sets
  the audio path. The steps after the one that throws are skipped. When the text cannot be
  extracted, the progress written is 5, 10 and the model is not called, nothing is fetched
  and nothing is uploaded. When the payload has no voice sample, the progress written is 5,
  10, 25, again with no call, fetch or upload. When the synthesis first fails at chunk \<open>k\<close>,
  the model has been called for the chunks \<open>0..k\<close> only, the URLs fetched are those of
  these chunks (none for chunk \<open>k\<close> when it is the model that threw), the progress of the
  chunks before \<open>k\<close> has been written, and nothing is uploaded. When every chunk is
  synthesised, it is the upload that failed: it was attempted once, after the calls and
  fetches of all the chunks, and the progress stops at 90. The error is then thrown again:
  the run ends with the same error (\<open>Inl err\<close>), it does not return.
\<close>

theorem fatal_error_aborts:
  assumes "snd (tryBlock e p) = Inl err"
  shows "snd (generateAudiobook e p) = Inl err \<and>
     (\<exists>rest. fst (generateAudiobook e p) =
           fst (tryBlock e p) @
           LoggerError (js ''Audiobook generation failed'')
             [(js ''jobId'', jobId p), (js ''error'', messageOf err)] #
           UpdateJob (jobId p) (noUpdate\<lparr>status := Some Failed, error := Some (messageOf err)\<rparr>) #
           rest \<and> list_all isRecorderWarning rest) \<and>
     (\<exists>ws. jobWrites (fst (generateAudiobook e p)) =
             ws @ [noUpdate\<lparr>status := Some Failed, error := Some (messageOf err)\<rparr>] \<and>
           (\<forall>u\<in>set ws. status u \<noteq> Some Failed \<and> status u \<noteq> Some Ready)) \<and>
     (\<forall>u\<in>set (jobWrites (fst (generateAudiobook e p))). audio_storage_path u = None) \<and>
     (extractedText e p = None \<longrightarrow>
        progressWrites (fst (generateAudiobook e p)) = [5, 10] \<and>
        replicateCalls (fst (generateAudiobook e p)) = [] \<and>
        fetches (fst (generateAudiobook e p)) = [] \<and>
        uploads (fst (generateAudiobook e p)) = []) \<and>
     (\<forall>text. extractedText e p = Some text \<and> truthyString (voiceStoragePath p) = None \<longrightarrow>
        progressWrites (fst (generateAudiobook e p)) = [5, 10, 25] \<and>
        replicateCalls (fst (generateAudiobook e p)) = [] \<and>
        fetches (fst (generateAudiobook e p)) = [] \<and>
        uploads (fst (generateAudiobook e p)) = []) \<and>
     (\<forall>text path k t.
        extractedText e p = Some text \<and> truthyString (voiceStoragePath p) = Some path \<and>
        k < length (splitText text 4000) \<and>
        (\<forall>j<k. \<exists>b. segmentAudio e (storageGetPublicUrl e path) j (splitText text 4000 ! j) = Inr b) \<and>
        segmentAudio e (storageGetPublicUrl e path) k (splitText text 4000 ! k) = Inl t \<longrightarrow>
        err = t \<and>
        progressWrites (fst (generateAudiobook e p)) =
          [5, 10, 25, 35] @
          map (\<lambda>j. chunkProgress (fround e) j (length (splitText text 4000))) [0..<k] \<and>
        replicateCalls (fst (generateAudiobook e p)) =
          map (\<lambda>c. (f5ttsModelOf e, c, storageGetPublicUrl e path)) (take (Suc k) (splitText text 4000)) \<and>
        fetches (fst (generateAudiobook e p)) =
          concat (map (\<lambda>j. chunkFetches e (storageGetPublicUrl e path) j (splitText text 4000 ! j))
                    [0..<Suc k]) \<and>
        uploads (fst (generateAudiobook e p)) = []) \<and>
     (\<forall>text path outs.
        extractedText e p = Some text \<and> truthyString (voiceStoragePath p) = Some path \<and>
        length outs = length (splitText text 4000) \<and>
        (\<forall>i<length (splitText text 4000).
           segmentAudio e (storageGetPublicUrl e path) i (splitText text 4000 ! i) = Inr (outs ! i)) \<longrightarrow>
        (\<exists>message.
           storageUpload e (js ''output/'' @ jobId p @ js ''/audiobook.wav'') (concat outs) = Some message \<and>
           err = ErrorObj (js ''Failed to upload audiobook: '' @ message)) \<and>
        progressWrites (fst (generateAudiobook e p)) =
          [5, 10, 25, 35] @
          map (\<lambda>j. chunkProgress (fround e) j (length (splitText text 4000)))
            [0..<length (splitText text 4000)] @ [90] \<and>
        replicateCalls (fst (generateAudiobook e p)) =
          map (\<lambda>c. (f5ttsModelOf e, c, storageGetPublicUrl e path)) (splitText text 4000) \<and>
        fetches (fst (generateAudiobook e p)) =
          concat (map (\<lambda>j. chunkFetches e (storageGetPublicUrl e path) j (splitText text 4000 ! j))
                    [0..<length (splitText text 4000)]) \<and>
        uploads (fst (generateAudiobook e p)) =
          [(js ''output/'' @ jobId p @ js ''/audiobook.wav'', concat outs)])"
proof -
  from assms have t: "tryBlock e p = (fst (tryBlock e p), Inl err)" by (metis prod.collapse)
  note g = generateAudiobook_eq [of e p] generateAudiobook_fetches [of e p]
  have pw: "progressWrites (fst (generateAudiobook e p)) = progressValues (jobWrites (fst (tryBlock e p)))"
    using assms g by (simp add: progressWrites_def progressValues_append noUpdate_def)
  have 1: "snd (generateAudiobook e p) = Inl err"
    using assms g by simp
  note 2 = generateAudiobook_catch [OF assms]
  have w: "jobWrites (fst (generateAudiobook e p)) =
             jobWrites (fst (tryBlock e p)) @ [noUpdate\<lparr>status := Some Failed, error := Some (messageOf err)\<rparr>]"
    using assms g by simp
  note f = tryBlock_failure [OF t]
  have 3: "\<exists>ws. jobWrites (fst (generateAudiobook e p)) =
             ws @ [noUpdate\<lparr>status := Some Failed, error := Some (messageOf err)\<rparr>] \<and>
           (\<forall>u\<in>set ws. status u \<noteq> Some Failed \<and> status u \<noteq> Some Ready)"
    using w f by blast
  have 4: "\<forall>u\<in>set (jobWrites (fst (generateAudiobook e p))). audio_storage_path u = None"
    using w f by (auto simp: noUpdate_def)
  have 5: "extractedText e p = None \<longrightarrow>
        progressWrites (fst (generateAudiobook e p)) = [5, 10] \<and>
        replicateCalls (fst (generateAudiobook e p)) = [] \<and>
        fetches (fst (generateAudiobook e p)) = [] \<and>
        uploads (fst (generateAudiobook e p)) = []"
  proof
    assume "extractedText e p = None"
    from run_extraction_fails [OF this] pw g
    show "progressWrites (fst (generateAudiobook e p)) = [5, 10] \<and>
        replicateCalls (fst (generateAudiobook e p)) = [] \<and>
        fetches (fst (generateAudiobook e p)) = [] \<and>
        uploads (fst (generateAudiobook e p)) = []"
      by (simp add: noUpdate_def)
  qed
  have 6: "\<forall>text. extractedText e p = Some text \<and> truthyString (voiceStoragePath p) = None \<longrightarrow>
        progressWrites (fst (generateAudiobook e p)) = [5, 10, 25] \<and>
        replicateCalls (fst (generateAudiobook e p)) = [] \<and>
        fetches (fst (generateAudiobook e p)) = [] \<and>
        uploads (fst (generateAudiobook e p)) = []"
  proof (intro allI impI)
    fix tx
    assume "extractedText e p = Some tx \<and> truthyString (voiceStoragePath p) = None"
    then have "extractedText e p = Some tx" "truthyString (voiceStoragePath p) = None" by simp_all
    from run_voice_fails [OF this] pw g
    show "progressWrites (fst (generateAudiobook e p)) = [5, 10, 25] \<and>
        replicateCalls (fst (generateAudiobook e p)) = [] \<and>
        fetches (fst (generateAudiobook e p)) = [] \<and>
        uploads (fst (generateAudiobook e p)) = []"
      by (simp add: noUpdate_def)
  qed
  have 7: "\<forall>text path k t.
        extractedText e p = Some text \<and> truthyString (voiceStoragePath p) = Some path \<and>
        k < length (splitText text 4000) \<and>
        (\<forall>j<k. \<exists>b. segmentAudio e (storageGetPublicUrl e path) j (splitText text 4000 ! j) = Inr b) \<and>
        segmentAudio e (storageGetPublicUrl e path) k (splitText text 4000 ! k) = Inl t \<longrightarrow>
        err = t \<and>
        progressWrites (fst (generateAudiobook e p)) =
          [5, 10, 25, 35] @
          map (\<lambda>j. chunkProgress (fround e) j (length (splitText text 4000))) [0..<k] \<and>
        replicateCalls (fst (generateAudiobook e p)) =
          map (\<lambda>c. (f5ttsModelOf e, c, storageGetPublicUrl e path)) (take (Suc k) (splitText text 4000)) \<and>
        fetches (fst (generateAudiobook e p)) =
          concat (map (\<lambda>j. chunkFetches e (storageGetPublicUrl e path) j (splitText text 4000 ! j))
                    [0..<Suc k]) \<and>
        uploads (fst (generateAudiobook e p)) = []"
  proof (intro allI impI)
    fix tx path k t
    assume a: "extractedText e p = Some tx \<and> truthyString (voiceStoragePath p) = Some path \<and>
        k < length (splitText tx 4000) \<and>
        (\<forall>j<k. \<exists>b. segmentAudio e (storageGetPublicUrl e path) j (splitText tx 4000 ! j) = Inr b) \<and>
        segmentAudio e (storageGetPublicUrl e path) k (splitText tx 4000 ! k) = Inl t"
    then have h: "extractedText e p = Some tx" "truthyString (voiceStoragePath p) = Some path"
        "k < length (splitText tx 4000)"
        "\<forall>j<k. \<exists>b. segmentAudio e (storageGetPublicUrl e path) j (splitText tx 4000 ! j) = Inr b"
        "segmentAudio e (storageGetPublicUrl e path) k (splitText tx 4000 ! k) = Inl t"
      by simp_all
    from run_throws_at_chunk [OF h] have c: "snd (tryBlock e p) = Inl t"
         "replicateCalls (fst (tryBlock e p)) =
           map (\<lambda>c. (f5ttsModelOf e, c, storageGetPublicUrl e path)) (take (Suc k) (splitText tx 4000))"
         "uploads (fst (tryBlock e p)) = []"
      by simp_all
    from c(2) h(3) have n: "length (replicateCalls (fst (tryBlock e p))) = Suc k" by simp
    have fe: "fetches (fst (tryBlock e p)) =
          concat (map (\<lambda>j. chunkFetches e (storageGetPublicUrl e path) j (splitText tx 4000 ! j))
                    [0..<Suc k])"
      using tryBlock_fetches [OF h(1,2)] by (simp only: n)
    have "progressValues (jobWrites (fst (tryBlock e p))) =
          [5, 10, 25, 35] @
          map (\<lambda>j. chunkProgress (fround e) j (length (splitText tx 4000))) [0..<k]"
      unfolding run_throws_at_chunk_writes [OF h] progressValues_append progressValues_map
      by (simp add: noUpdate_def)
    with c fe assms pw g
    show "err = t \<and>
        progressWrites (fst (generateAudiobook e p)) =
          [5, 10, 25, 35] @
          map (\<lambda>j. chunkProgress (fround e) j (length (splitText tx 4000))) [0..<k] \<and>
        replicateCalls (fst (generateAudiobook e p)) =
          map (\<lambda>c. (f5ttsModelOf e, c, storageGetPublicUrl e path)) (take (Suc k) (splitText tx 4000)) \<and>
        fetches (fst (generateAudiobook e p)) =
          concat (map (\<lambda>j. chunkFetches e (storageGetPublicUrl e path) j (splitText tx 4000 ! j))
                    [0..<Suc k]) \<and>
        uploads (fst (generateAudiobook e p)) = []"
      by simp
  qed
  have 8: "\<forall>text path outs.
        extractedText e p = Some text \<and> truthyString (voiceStoragePath p) = Some path \<and>
        length outs = length (splitText text 4000) \<and>
        (\<forall>i<length (splitText text 4000).
           segmentAudio e (storageGetPublicUrl e path) i (splitText text 4000 ! i) = Inr (outs ! i)) \<longrightarrow>
        (\<exists>message.
           storageUpload e (js ''output/'' @ jobId p @ js ''/audiobook.wav'') (concat outs) = Some message \<and>
           err = ErrorObj (js ''Failed to upload audiobook: '' @ message)) \<and>
        progressWrites (fst (generateAudiobook e p)) =
          [5, 10, 25, 35] @
          map (\<lambda>j. chunkProgress (fround e) j (length (splitText text 4000)))
            [0..<length (splitText text 4000)] @ [90] \<and>
        replicateCalls (fst (generateAudiobook e p)) =
          map (\<lambda>c. (f5ttsModelOf e, c, storageGetPublicUrl e path)) (splitText text 4000) \<and>
        fetches (fst (generateAudiobook e p)) =
          concat (map (\<lambda>j. chunkFetches e (storageGetPublicUrl e path) j (splitText text 4000 ! j))
                    [0..<length (splitText text 4000)]) \<and>
        uploads (fst (generateAudiobook e p)) =
          [(js ''output/'' @ jobId p @ js ''/audiobook.wav'', concat outs)]"
  proof (intro allI impI)
    fix tx path outs
    assume a: "extractedText e p = Some tx \<and> truthyString (voiceStoragePath p) = Some path \<and>
        length outs = length (splitText tx 4000) \<and>
        (\<forall>i<length (splitText tx 4000).
           segmentAudio e (storageGetPublicUrl e path) i (splitText tx 4000 ! i) = Inr (outs ! i))"
    then have h: "extractedText e p = Some tx" "truthyString (voiceStoragePath p) = Some path"
        "length outs = length (splitText tx 4000)"
        "\<forall>i<length (splitText tx 4000).
           segmentAudio e (storageGetPublicUrl e path) i (splitText tx 4000 ! i) = Inr (outs ! i)"
      by simp_all
    from run_upload_fails [OF h] have c:
      "snd (tryBlock e p) =
           (case storageUpload e (js ''output/'' @ jobId p @ js ''/audiobook.wav'') (concat outs) of
              Some message \<Rightarrow> Inl (ErrorObj (js ''Failed to upload audiobook: '' @ message))
            | None \<Rightarrow> Inr \<lparr>success = True, resultJobId = jobId p,
                      outputPath = js ''output/'' @ jobId p @ js ''/audiobook.wav''\<rparr>)"
      "replicateCalls (fst (tryBlock e p)) =
           map (\<lambda>c. (f5ttsModelOf e, c, storageGetPublicUrl e path)) (splitText tx 4000)"
      "uploads (fst (tryBlock e p)) = [(js ''output/'' @ jobId p @ js ''/audiobook.wav'', concat outs)]"
      "jobWrites (fst (tryBlock e p)) =
             [noUpdate\<lparr>status := Some Processing, progress := Some 5\<rparr>, noUpdate\<lparr>progress := Some 10\<rparr>,
              noUpdate\<lparr>progress := Some 25\<rparr>, noUpdate\<lparr>progress := Some 35\<rparr>] @
             map (\<lambda>j. noUpdate\<lparr>progress := Some (chunkProgress (fround e) j (length (splitText tx 4000)))\<rparr>)
               [0..<length (splitText tx 4000)] @
             [noUpdate\<lparr>progress := Some 90\<rparr>]"
      using assms by simp_all
    from c(1) assms have m: "\<exists>message.
           storageUpload e (js ''output/'' @ jobId p @ js ''/audiobook.wav'') (concat outs) = Some message \<and>
           err = ErrorObj (js ''Failed to upload audiobook: '' @ message)"
      by (cases "storageUpload e (js ''output/'' @ jobId p @ js ''/audiobook.wav'') (concat outs)") auto
    from c(2) have n: "length (replicateCalls (fst (tryBlock e p))) = length (splitText tx 4000)" by simp
    have fe: "fetches (fst (tryBlock e p)) =
          concat (map (\<lambda>j. chunkFetches e (storageGetPublicUrl e path) j (splitText tx 4000 ! j))
                    [0..<length (splitText tx 4000)])"
      using tryBlock_fetches [OF h(1,2)] by (simp only: n)
    have "progressValues (jobWrites (fst (tryBlock e p))) =
          [5, 10, 25, 35] @
          map (\<lambda>j. chunkProgress (fround e) j (length (splitText tx 4000)))
            [0..<length (splitText tx 4000)] @ [90]"
      unfolding c(4) progressValues_append progressValues_map
      by (simp add: noUpdate_def)
    with m c(2,3) fe pw g
    show "(\<exists>message.
           storageUpload e (js ''output/'' @ jobId p @ js ''/audiobook.wav'') (concat outs) = Some message \<and>
           err = ErrorObj (js ''Failed to upload audiobook: '' @ message)) \<and>
        progressWrites (fst (generateAudiobook e p)) =
          [5, 10, 25, 35] @
          map (\<lambda>j. chunkProgress (fround e) j (length (splitText tx 4000)))
            [0..<length (splitText tx 4000)] @ [90] \<and>
        replicateCalls (fst (generateAudiobook e p)) =
          map (\<lambda>c. (f5ttsModelOf e, c, storageGetPublicUrl e path)) (splitText tx 4000) \<and>
        fetches (fst (generateAudiobook e p)) =
          concat (map (\<lambda>j. chunkFetches e (storageGetPublicUrl e path) j (splitText tx 4000 ! j))
                    [0..<length (splitText tx 4000)]) \<and>
        uploads (fst (generateAudiobook e p)) =
          [(js ''output/'' @ jobId p @ js ''/audiobook.wav'', concat outs)]"
      by simp
  qed
  from 1 2 3 4 5 6 7 8 show ?thesis by blast
qed

text \<open>
  Four runs that throw. The synthesis fails at chunk 1 of 3: two calls, one fetch, no upload,
  progress up to 51. The PDF is a scan: progress 5, 10, no call. The payload has a video id
  only: progress 5, 10, 25, no call. The upload is refused: three calls, one upload, progress
  up to 90.
\<close>

theorem fatal_error_aborts_witness:
  "snd (tryBlock envChunkFails payloadUpload) = Inl (ErrorObj (js ''Prediction failed'')) \<and>
   snd (generateAudiobook envChunkFails payloadUpload) = Inl (ErrorObj (js ''Prediction failed'')) \<and>
   segmentAudio envChunkFails (js ''https://storage.test/voices/v.wav'') 0 (splitText longText 4000 ! 0)
     = Inr [48] \<and>
   segmentAudio envChunkFails (js ''https://storage.test/voices/v.wav'') 1 (splitText longText 4000 ! 1)
     = Inl (ErrorObj (js ''Prediction failed'')) \<and>
   length (splitText longText 4000) = 3 \<and>
   progressWrites (fst (generateAudiobook envChunkFails payloadUpload)) = [5, 10, 25, 35, 51] \<and>
   replicateCalls (fst (generateAudiobook envChunkFails payloadUpload)) =
     [(js ''f5'', replicate 3995 0x61 @ js ''.'', js ''https://storage.test/voices/v.wav''),
      (js ''f5'', replicate 3995 0x62 @ js ''.'', js ''https://storage.test/voices/v.wav'')] \<and>
   fetches (fst (generateAudiobook envChunkFails payloadUpload)) = [js ''https://replicate.test/out''] \<and>
   uploads (fst (generateAudiobook envChunkFails payloadUpload)) = [] \<and>
   list_all (\<lambda>u. audio_storage_path u = None) (jobWrites (fst (generateAudiobook envChunkFails payloadUpload))) \<and>
   extractedText envScanned payloadUpload = None \<and>
   snd (generateAudiobook envScanned payloadUpload) =
     Inl (ErrorObj (js ''Could not extract text from PDF. Is it a scanned document?'')) \<and>
   progressWrites (fst (generateAudiobook envScanned payloadUpload)) = [5, 10] \<and>
   replicateCalls (fst (generateAudiobook envScanned payloadUpload)) = [] \<and>
   uploads (fst (generateAudiobook envScanned payloadUpload)) = [] \<and>
   truthyString (voiceStoragePath payloadVideo) = None \<and>
   progressWrites (fst (generateAudiobook envOk payloadVideo)) = [5, 10, 25] \<and>
   replicateCalls (fst (generateAudiobook envOk payloadVideo)) = [] \<and>
   uploads (fst (generateAudiobook envOk payloadVideo)) = [] \<and>
   storageUpload envUploadFails (js ''output/job-1/audiobook.wav'') [48, 49, 50] =
     Some (js ''Bucket not found'') \<and>
   snd (generateAudiobook envUploadFails payloadUpload) =
     Inl (ErrorObj (js ''Failed to upload audiobook: Bucket not found'')) \<and>
   progressWrites (fst (generateAudiobook envUploadFails payloadUpload)) =
     [5, 10, 25, 35, 51, 68, 85, 90] \<and>
   length (replicateCalls (fst (generateAudiobook envUploadFails payloadUpload))) = 3 \<and>
   uploads (fst (generateAudiobook envUploadFails payloadUpload)) =
     [(js ''output/job-1/audiobook.wav'', [48, 49, 50])]"
proof -
  note th = fatal_error_aborts [OF chunkFails_throws]
  have s0: "segmentAudio envChunkFails (js ''https://storage.test/voices/v.wav'') 0 (splitText longText 4000 ! 0)
     = Inr [48]"
    and s1: "segmentAudio envChunkFails (js ''https://storage.test/voices/v.wav'') 1 (splitText longText 4000 ! 1)
     = Inl (ErrorObj (js ''Prediction failed''))"
    by (simp_all add: segmentAudio_envChunkFails)
  from th have "\<forall>k t.
        extractedText envChunkFails payloadUpload = Some longText \<and>
        truthyString (voiceStoragePath payloadUpload) = Some (js ''voices/v.wav'') \<and>
        k < length (splitText longText 4000) \<and>
        (\<forall>j<k. \<exists>b. segmentAudio envChunkFails (storageGetPublicUrl envChunkFails (js ''voices/v.wav'')) j
                     (splitText longText 4000 ! j) = Inr b) \<and>
        segmentAudio envChunkFails (storageGetPublicUrl envChunkFails (js ''voices/v.wav'')) k
          (splitText longText 4000 ! k) = Inl t \<longrightarrow>
        progressWrites (fst (generateAudiobook envChunkFails payloadUpload)) =
          [5, 10, 25, 35] @
          map (\<lambda>j. chunkProgress (fround envChunkFails) j (length (splitText longText 4000))) [0..<k] \<and>
        replicateCalls (fst (generateAudiobook envChunkFails payloadUpload)) =
          map (\<lambda>c. (f5ttsModelOf envChunkFails, c, storageGetPublicUrl envChunkFails (js ''voices/v.wav'')))
            (take (Suc k) (splitText longText 4000)) \<and>
        fetches (fst (generateAudiobook envChunkFails payloadUpload)) =
          concat (map (\<lambda>j. chunkFetches envChunkFails (storageGetPublicUrl envChunkFails (js ''voices/v.wav'')) j
                              (splitText longText 4000 ! j)) [0..<Suc k]) \<and>
        uploads (fst (generateAudiobook envChunkFails payloadUpload)) = []"
    by blast
  from this [rule_format, of 1 "ErrorObj (js ''Prediction failed'')"]
  have c: "progressWrites (fst (generateAudiobook envChunkFails payloadUpload)) = [5, 10, 25, 35, 51]"
     "replicateCalls (fst (generateAudiobook envChunkFails payloadUpload)) =
     [(js ''f5'', replicate 3995 0x61 @ js ''.'', js ''https://storage.test/voices/v.wav''),
      (js ''f5'', replicate 3995 0x62 @ js ''.'', js ''https://storage.test/voices/v.wav'')]"
     "fetches (fst (generateAudiobook envChunkFails payloadUpload)) = [js ''https://replicate.test/out'']"
     "uploads (fst (generateAudiobook envChunkFails payloadUpload)) = []"
    using extractedText_envOk(3) voice_payloadUpload
    by (simp_all add: splitText_longText segmentAudio_envChunkFails envOk_fields js_def
        chunkFetches_envChunkFails chunkProgress_double_3 upt_rec)
  from th have a: "list_all (\<lambda>u. audio_storage_path u = None)
      (jobWrites (fst (generateAudiobook envChunkFails payloadUpload)))"
    by (simp add: list_all_iff)
  note th2 = fatal_error_aborts [OF scanned_throws]
  from th2 extractedText_envScanned have d:
    "snd (generateAudiobook envScanned payloadUpload) =
       Inl (ErrorObj (js ''Could not extract text from PDF. Is it a scanned document?''))"
    "progressWrites (fst (generateAudiobook envScanned payloadUpload)) = [5, 10]"
    "replicateCalls (fst (generateAudiobook envScanned payloadUpload)) = []"
    "uploads (fst (generateAudiobook envScanned payloadUpload)) = []"
    by simp_all
  note th3 = fatal_error_aborts [OF video_throws]
  from th3 have "\<forall>text. extractedText envOk payloadVideo = Some text \<and>
        truthyString (voiceStoragePath payloadVideo) = None \<longrightarrow>
        progressWrites (fst (generateAudiobook envOk payloadVideo)) = [5, 10, 25] \<and>
        replicateCalls (fst (generateAudiobook envOk payloadVideo)) = [] \<and>
        fetches (fst (generateAudiobook envOk payloadVideo)) = [] \<and>
        uploads (fst (generateAudiobook envOk payloadVideo)) = []"
    by blast
  from this [rule_format, of longText] extractedText_envOk(2) voice_payloadVideo(1) have v:
    "progressWrites (fst (generateAudiobook envOk payloadVideo)) = [5, 10, 25]"
    "replicateCalls (fst (generateAudiobook envOk payloadVideo)) = []"
    "uploads (fst (generateAudiobook envOk payloadVideo)) = []"
    by simp_all
  note th4 = fatal_error_aborts [OF uploadFails_throws]
  from th4 have "\<forall>outs.
        extractedText envUploadFails payloadUpload = Some longText \<and>
        truthyString (voiceStoragePath payloadUpload) = Some (js ''voices/v.wav'') \<and>
        length outs = length (splitText longText 4000) \<and>
        (\<forall>i<length (splitText longText 4000).
           segmentAudio envUploadFails (storageGetPublicUrl envUploadFails (js ''voices/v.wav'')) i
             (splitText longText 4000 ! i) = Inr (outs ! i)) \<longrightarrow>
        progressWrites (fst (generateAudiobook envUploadFails payloadUpload)) =
          [5, 10, 25, 35] @
          map (\<lambda>j. chunkProgress (fround envUploadFails) j (length (splitText longText 4000)))
            [0..<length (splitText longText 4000)] @ [90] \<and>
        replicateCalls (fst (generateAudiobook envUploadFails payloadUpload)) =
          map (\<lambda>c. (f5ttsModelOf envUploadFails, c, storageGetPublicUrl envUploadFails (js ''voices/v.wav'')))
            (splitText longText 4000) \<and>
        uploads (fst (generateAudiobook envUploadFails payloadUpload)) =
          [(js ''output/'' @ jobId payloadUpload @ js ''/audiobook.wav'', concat outs)]"
    by blast
  from this [rule_format, of "[[48], [49], [50]]"] envUploadFails_fields(1) voice_payloadUpload
    uploadFails_segments
  have u: "progressWrites (fst (generateAudiobook envUploadFails payloadUpload)) =
     [5, 10, 25, 35, 51, 68, 85, 90]"
    "length (replicateCalls (fst (generateAudiobook envUploadFails payloadUpload))) = 3"
    "uploads (fst (generateAudiobook envUploadFails payloadUpload)) =
     [(js ''output/job-1/audiobook.wav'', [48, 49, 50])]"
    by (simp_all add: splitText_longText envUploadFails_fields envOk_fields chunkProgress_double_3
        upt_rec js_def)
  from th4 have u0: "snd (generateAudiobook envUploadFails payloadUpload) =
     Inl (ErrorObj (js ''Failed to upload audiobook: Bucket not found''))"
    by simp
  have u1: "storageUpload envUploadFails (js ''output/job-1/audiobook.wav'') [48, 49, 50] =
     Some (js ''Bucket not found'')"
    by (rule envUploadFails_fields)
  from th chunkFails_throws s0 s1 c a d extractedText_envScanned v voice_payloadVideo(1) u u0 u1
  show ?thesis by (simp add: splitText_longText)
qed

text \<open>
  The last part of C2 as the claim states it fails: the \<open>catch\<close> block ends with
  \<open>throw error\<close>, so the run throws to its caller.
\<close>

theorem exception_escapes_counterexample:
  "snd (generateAudiobook envChunkFails payloadUpload) = Inl (ErrorObj (js ''Prediction failed''))"
  using chunkFails_throws generateAudiobook_eq [of envChunkFails payloadUpload] by simp

text \<open>
  C3. The arithmetic on numbers rounds; the rounding is assumed monotone and exact on 0, 1
  and 50, as rounding to the nearest double is. In a run that returns, the progress values
  written are 5, 10, 25, 35, then \<open>35 + floor(((i + 1) / N) * 50)\<close> for every chunk \<open>i\<close> of
  the \<open>N\<close> chunks, then 90 and 100; the list is non-decreasing and ends with 100. In no run
  at all is \<open>status = ready\<close> written after \<open>status = failed\<close>.
\<close>

theorem progress_monotone:
  assumes "mono (fround e)" and "fround e 0 = 0" and "fround e 1 = 1" and "fround e 50 = 50"
  shows "(\<forall>tr r. generateAudiobook e p = (tr, Inr r) \<longrightarrow>
            (\<exists>text. extractedText e p = Some text \<and>
               progressWrites tr =
                 [5, 10, 25, 35] @
                 map (\<lambda>i. chunkProgress (fround e) i (length (splitText text 4000)))
                   [0..<length (splitText text 4000)] @
                 [90, 100]) \<and>
            sorted (progressWrites tr) \<and> last (progressWrites tr) = 100) \<and>
         \<not> (\<exists>i j. i < j \<and> j < length (jobWrites (fst (generateAudiobook e' p'))) \<and>
                 status (jobWrites (fst (generateAudiobook e' p')) ! i) = Some Failed \<and>
                 status (jobWrites (fst (generateAudiobook e' p')) ! j) = Some Ready)"
proof -
  have A: "\<forall>tr r. generateAudiobook e p = (tr, Inr r) \<longrightarrow>
            (\<exists>text. extractedText e p = Some text \<and>
               progressWrites tr =
                 [5, 10, 25, 35] @
                 map (\<lambda>i. chunkProgress (fround e) i (length (splitText text 4000)))
                   [0..<length (splitText text 4000)] @
                 [90, 100]) \<and>
            sorted (progressWrites tr) \<and> last (progressWrites tr) = 100"
  proof (intro allI impI)
    fix tr r assume run: "generateAudiobook e p = (tr, Inr r)"
    then have g: "snd (generateAudiobook e p) = Inr r" "fst (generateAudiobook e p) = tr"
      by simp_all
    have s: "snd (tryBlock e p) = Inr r"
      using g generateAudiobook_eq [of e p] by simp
    have jw: "jobWrites tr = jobWrites (fst (tryBlock e p))"
      using s g generateAudiobook_eq [of e p] by simp
    have t: "tryBlock e p = (fst (tryBlock e p), Inr r)"
      using s by (metis prod.collapse)
    from tryBlock_success [OF t] obtain tx0 where
      tx: "extractedText e p = Some tx0" and
      w: "jobWrites (fst (tryBlock e p)) =
       [noUpdate\<lparr>status := Some Processing, progress := Some 5\<rparr>, noUpdate\<lparr>progress := Some 10\<rparr>,
        noUpdate\<lparr>progress := Some 25\<rparr>, noUpdate\<lparr>progress := Some 35\<rparr>] @
       map (\<lambda>j. noUpdate\<lparr>progress := Some (chunkProgress (fround e) j (length (splitText tx0 4000)))\<rparr>)
         [0..<length (splitText tx0 4000)] @
       [noUpdate\<lparr>progress := Some 90\<rparr>,
        noUpdate\<lparr>status := Some Ready, progress := Some 100,
                 audio_storage_path := Some (js ''output/'' @ jobId p @ js ''/audiobook.wav'')\<rparr>]"
      by blast
    have pw: "progressWrites tr =
                 [5, 10, 25, 35] @
                 map (\<lambda>i. chunkProgress (fround e) i (length (splitText tx0 4000)))
                   [0..<length (splitText tx0 4000)] @
                 [90, 100]"
      using w jw
      by (simp add: progressWrites_def progressValues_append progressValues_map)
    have "sorted (progressWrites tr)"
      unfolding pw by (rule sorted_progress_list [OF assms])
    moreover have "last (progressWrites tr) = 100" unfolding pw by simp
    ultimately show "(\<exists>text. extractedText e p = Some text \<and>
               progressWrites tr =
                 [5, 10, 25, 35] @
                 map (\<lambda>i. chunkProgress (fround e) i (length (splitText text 4000)))
                   [0..<length (splitText text 4000)] @
                 [90, 100]) \<and>
            sorted (progressWrites tr) \<and> last (progressWrites tr) = 100"
      using tx pw by blast
  qed
  have B: "\<not> (\<exists>i j. i < j \<and> j < length (jobWrites (fst (generateAudiobook e' p'))) \<and>
                 status (jobWrites (fst (generateAudiobook e' p')) ! i) = Some Failed \<and>
                 status (jobWrites (fst (generateAudiobook e' p')) ! j) = Some Ready)"
  proof
    let ?W = "jobWrites (fst (generateAudiobook e' p'))"
    let ?T = "jobWrites (fst (tryBlock e' p'))"
    assume "\<exists>i j. i < j \<and> j < length ?W \<and> status (?W ! i) = Some Failed \<and> status (?W ! j) = Some Ready"
    then obtain i j where ij: "i < j" "j < length ?W" "status (?W ! i) = Some Failed"
      "status (?W ! j) = Some Ready" by blast
    have nf: "\<forall>u\<in>set ?T. status u \<noteq> Some Failed" by (rule tryBlock_never_failed_write)
    have "i < length ?T \<Longrightarrow> False"
    proof -
      assume a: "i < length ?T"
      have "?W ! i = ?T ! i"
        using a generateAudiobook_eq [of e' p'] by (simp add: nth_append)
      with ij(3) nf a show False by (metis nth_mem)
    qed
    then have "length ?T \<le> i" by (meson not_le)
    moreover have "length ?W \<le> length ?T + 1"
      using generateAudiobook_eq [of e' p'] by (simp split: sum.splits)
    ultimately show False using ij(1,2) by simp
  qed
  from A B show ?thesis by blast
qed

text \<open>
  The run over the text of three chunks returns and writes 5, 10, 25, 35, 51, 68, 85, 90, 100.
\<close>

theorem progress_monotone_witness:
  "mono (fround envOk) \<and> fround envOk 0 = 0 \<and> fround envOk 1 = 1 \<and> fround envOk 50 = 50 \<and>
   snd (generateAudiobook envOk payloadUpload) =
     Inr \<lparr>success = True, resultJobId = js ''job-1'', outputPath = js ''output/job-1/audiobook.wav''\<rparr> \<and>
   progressWrites (fst (generateAudiobook envOk payloadUpload)) = [5, 10, 25, 35, 51, 68, 85, 90, 100] \<and>
   sorted (progressWrites (fst (generateAudiobook envOk payloadUpload))) \<and>
   last (progressWrites (fst (generateAudiobook envOk payloadUpload))) = 100"
proof -
  have m: "mono (fround envOk)" by (simp add: envOk_def roundDouble_mono)
  have f: "fround envOk 0 = 0" "fround envOk 1 = 1" "fround envOk 50 = 50"
    by (simp_all add: envOk_def roundDouble_fixed)
  have r: "snd (generateAudiobook envOk payloadUpload) =
     Inr \<lparr>success = True, resultJobId = js ''job-1'', outputPath = js ''output/job-1/audiobook.wav''\<rparr>"
    using run_envOk by (simp add: js_def)
  then have run: "generateAudiobook envOk payloadUpload =
          (fst (generateAudiobook envOk payloadUpload),
           Inr \<lparr>success = True, resultJobId = js ''job-1'', outputPath = js ''output/job-1/audiobook.wav''\<rparr>)"
    by (metis prod.collapse)
  note th = progress_monotone [OF m f, of payloadUpload]
  from th run extractedText_envOk(1)
  have p: "progressWrites (fst (generateAudiobook envOk payloadUpload)) =
             [5, 10, 25, 35] @
             map (\<lambda>i. chunkProgress (fround envOk) i (length (splitText longText 4000)))
               [0..<length (splitText longText 4000)] @ [90, 100]"
    by auto
  then have p': "progressWrites (fst (generateAudiobook envOk payloadUpload)) =
      [5, 10, 25, 35, 51, 68, 85, 90, 100]"
    by (simp add: splitText_longText envOk_fields chunkProgress_double_3 upt_rec)
  from th run have "sorted (progressWrites (fst (generateAudiobook envOk payloadUpload)))"
    "last (progressWrites (fst (generateAudiobook envOk payloadUpload))) = 100"
    by blast+
  with m f r p' show ?thesis by blast
qed

text \<open>
  C4 (as amended). For every \<open>maxChars \<ge> 1\<close> and every text that is empty or consists of
  white space only (so for \<open>""\<close> and for three spaces), \<open>splitText\<close> returns exactly one
  segment, the first \<open>maxChars\<close> code units of the raw input; that segment is empty exactly
  when the input is the empty string. No input at all gives zero segments. The function has
  no \<open>throw\<close>, and its model is total.
\<close>

theorem splitText_blank_fallback:
  assumes "1 \<le> maxChars" and "\<forall>c\<in>set text. isWhiteSpace c"
  shows "splitText text maxChars = [take (nat maxChars) text] \<and>
         (take (nat maxChars) text = [] \<longleftrightarrow> text = []) \<and>
         splitText anyText anyMax \<noteq> []"
proof -
  have "splitText text maxChars = [take (nat maxChars) text]"
    using assms by (simp add: splitText_blank slice0_pos)
  moreover have "take (nat maxChars) text = [] \<longleftrightarrow> text = []"
    using assms(1) by (simp add: take_eq_Nil)
  ultimately show ?thesis by (simp add: splitText_not_Nil)
qed

text \<open>
  Three spaces with \<open>maxChars = 2\<close> give one segment of two spaces; the empty string gives
  one empty segment.
\<close>

theorem splitText_blank_fallback_witness:
  "(1::int) \<le> 2 \<and> list_all isWhiteSpace (js ''   '') \<and>
   splitText (js ''   '') 2 = [js ''  ''] \<and> splitText (js []) 2 = [js []]"
  using splitText_blank_fallback [of 2 "js ''   ''"] splitText_blank_fallback [of 2 "js []"]
  by (simp add: js_def isWhiteSpace_def)

text \<open>
  C4 as the claim states it fails for the empty string: the one segment returned is the
  empty string.
\<close>

theorem splitText_empty_counterexample:
  "splitText (js []) 1 = [[]]"
  by (simp add: chunker_eval)

text \<open>
  C5. For every text and \<open>maxChars \<ge> 1\<close>, every segment returned by \<open>splitText\<close> has at
  most \<open>maxChars\<close> code units, unless it is one sentence of the split (trimmed) that is
  itself longer than \<open>maxChars\<close>; and every sentence that is not blank and is longer than
  \<open>maxChars\<close> is a segment of the result, whole.
\<close>

theorem splitText_bounded:
  assumes "1 \<le> maxChars"
  shows "(\<forall>seg\<in>set (splitText text maxChars).
            int (length seg) \<le> maxChars \<or>
            (\<exists>s\<in>set (jsSplit text). maxChars < int (length s) \<and> seg = trim s)) \<and>
         (\<forall>s\<in>set (jsSplit text). trim s \<noteq> [] \<and> maxChars < int (length s) \<longrightarrow>
            trim s \<in> set (splitText text maxChars))"
proof -
  obtain chunks cur where p: "packSentences maxChars [] [] (jsSplit text) = (chunks, cur)"
    by (cases "packSentences maxChars [] [] (jsSplit text)")
  let ?ch = "if trim cur \<noteq> [] then chunks @ [trim cur] else chunks"
  have st: "splitText text maxChars = (if ?ch \<noteq> [] then ?ch else [slice0 text maxChars])"
    using p by (simp add: splitText_def)
  have "int (length (trim [])) \<le> maxChars" using assms by simp
  from packSentences_bounded [OF p _ _ subset_refl] this
  have g: "\<forall>seg\<in>set ?ch. int (length seg) \<le> maxChars \<or>
            (\<exists>s\<in>set (jsSplit text). maxChars < int (length s) \<and> seg = trim s)"
    by auto
  have "int (length (slice0 text maxChars)) \<le> maxChars"
    using assms by (simp add: slice0_pos)
  with g st have A: "\<forall>seg\<in>set (splitText text maxChars).
            int (length seg) \<le> maxChars \<or>
            (\<exists>s\<in>set (jsSplit text). maxChars < int (length s) \<and> seg = trim s)"
    by (auto split: if_splits)
  have B: "\<forall>s\<in>set (jsSplit text). trim s \<noteq> [] \<and> maxChars < int (length s) \<longrightarrow>
            trim s \<in> set (splitText text maxChars)"
  proof (intro ballI impI)
    fix s assume s: "s \<in> set (jsSplit text)" "trim s \<noteq> [] \<and> maxChars < int (length s)"
    then have "trim s \<in> set chunks \<or> cur = s @ [space]"
      using packSentences_oversized [OF p] by blast
    then have "trim s \<in> set ?ch" using s by (auto simp: trim_snoc_ws isWhiteSpace_space)
    then show "trim s \<in> set (splitText text maxChars)" using st by (auto split: if_splits)
  qed
  from A B show ?thesis by blast
qed

text \<open>
  With \<open>maxChars = 5\<close> the sentence \<open>Hello world.\<close> is too long and is a segment of its own.
\<close>

theorem splitText_bounded_witness:
  "(1::int) \<le> 5 \<and>
   jsSplit (js ''Hello world. Hi.'') = [js ''Hello world.'', js ''Hi.''] \<and>
   splitText (js ''Hello world. Hi.'') 5 = [js ''Hello world.'', js ''Hi.''] \<and>
   (5::int) < int (length (js ''Hello world.'')) \<and>
   int (length (js ''Hi.'')) \<le> 5 \<and>
   trim (js ''Hello world.'') \<in> set (splitText (js ''Hello world. Hi.'') 5)"
  using splitText_bounded [of 5 "js ''Hello world. Hi.''"]
  by (simp add: chunker_eval)

text \<open>
  C6. For every text that is not empty and not white space only, and every \<open>maxChars\<close>,
  the segments of \<open>splitText\<close> joined by single spaces have the same whitespace-normalised
  form (runs of white space collapsed to one space, then trimmed) as the text itself.
\<close>

theorem normalize_splitText:
  "trim text \<noteq> [] \<Longrightarrow> normalizeWs (joinSpaces (splitText text n)) = normalizeWs text"
  by (simp add: normalizeWs_tokens tokens_joinSpaces tokens_splitText)

text \<open>
  A text with runs of spaces, split in two segments.
\<close>

theorem normalize_splitText_witness:
  "trim (js ''  Hello   world.  This is.  '') \<noteq> [] \<and>
   splitText (js ''  Hello   world.  This is.  '') 10 = [js ''Hello   world.'', js ''This is.''] \<and>
   normalizeWs (joinSpaces (splitText (js ''  Hello   world.  This is.  '') 10)) =
     js ''Hello world. This is.'' \<and>
   normalizeWs (js ''  Hello   world.  This is.  '') = js ''Hello world. This is.''"
  using normalize_splitText [of "js ''  Hello   world.  This is.  ''" 10]
  by (simp add: chunker_eval normalizeWs_def)

text \<open>
  C7 (as amended). Once the text has been extracted, the step that resolves the voice sample
  throws exactly when the payload has no direct voice sample (\<open>voiceStoragePath\<close> is
  \<open>null\<close> or empty). Then the run throws \<open>No voice sample provided\<close>, or, when a video id
  is present, the message that YouTube extraction is not available; the model is never
  called and the last progress written is 25. With a direct voice sample the run writes
  progress 35 and calls the model with the public URL of the sample.
\<close>

theorem voice_resolution:
  assumes "extractedText e p = Some text"
  shows "(truthyString (voiceStoragePath p) = None \<longrightarrow>
            snd (generateAudiobook e p) =
              Inl (ErrorObj (if truthyString (videoId p) = None then js ''No voice sample provided''
                 else js ''YouTube audio extraction requires yt-dlp. Please upload a voice sample directly for now.'')) \<and>
            replicateCalls (fst (generateAudiobook e p)) = [] \<and>
            progressWrites (fst (generateAudiobook e p)) = [5, 10, 25]) \<and>
         (\<forall>path. truthyString (voiceStoragePath p) = Some path \<longrightarrow>
            (\<exists>rest. progressWrites (fst (generateAudiobook e p)) = [5, 10, 25, 35] @ rest) \<and>
            (\<exists>calls. replicateCalls (fst (generateAudiobook e p)) =
               (f5ttsModelOf e, splitText text 4000 ! 0, storageGetPublicUrl e path) # calls))"
  using run_without_voice_sample [OF assms] run_with_voice_sample [OF assms] by blast

text \<open>
  A payload with a video id only throws; a payload with a direct voice sample proceeds.
\<close>

theorem voice_resolution_witness:
  "extractedText envOk payloadVideo = Some longText \<and>
   truthyString (voiceStoragePath payloadVideo) = None \<and>
   snd (generateAudiobook envOk payloadVideo) =
     Inl (ErrorObj (js
       ''YouTube audio extraction requires yt-dlp. Please upload a voice sample directly for now.'')) \<and>
   replicateCalls (fst (generateAudiobook envOk payloadVideo)) = [] \<and>
   progressWrites (fst (generateAudiobook envOk payloadVideo)) = [5, 10, 25] \<and>
   extractedText envOk payloadUpload = Some longText \<and>
   truthyString (voiceStoragePath payloadUpload) = Some (js ''voices/v.wav'') \<and>
   take 4 (progressWrites (fst (generateAudiobook envOk payloadUpload))) = [5, 10, 25, 35] \<and>
   hd (replicateCalls (fst (generateAudiobook envOk payloadUpload))) =
     (js ''f5'', replicate 3995 0x61 @ js ''.'', js ''https://storage.test/voices/v.wav'')"
proof -
  from voice_resolution [OF extractedText_envOk(2)] voice_payloadVideo
  have a: "snd (generateAudiobook envOk payloadVideo) =
     Inl (ErrorObj (js
       ''YouTube audio extraction requires yt-dlp. Please upload a voice sample directly for now.''))"
    "replicateCalls (fst (generateAudiobook envOk payloadVideo)) = []"
    "progressWrites (fst (generateAudiobook envOk payloadVideo)) = [5, 10, 25]"
    by simp_all
  from voice_resolution [OF extractedText_envOk(1)] voice_payloadUpload
  have b: "\<exists>rest. progressWrites (fst (generateAudiobook envOk payloadUpload)) = [5, 10, 25, 35] @ rest"
    "\<exists>calls. replicateCalls (fst (generateAudiobook envOk payloadUpload)) =
       (f5ttsModelOf envOk, splitText longText 4000 ! 0, storageGetPublicUrl envOk (js ''voices/v.wav'')) # calls"
    by simp_all
  from b(1) have c: "take 4 (progressWrites (fst (generateAudiobook envOk payloadUpload))) = [5, 10, 25, 35]"
    by auto
  from b(2) have d: "hd (replicateCalls (fst (generateAudiobook envOk payloadUpload))) =
     (js ''f5'', replicate 3995 0x61 @ js ''.'', js ''https://storage.test/voices/v.wav'')"
    by (auto simp: splitText_longText envOk_fields js_def)
  from a c d extractedText_envOk voice_payloadVideo voice_payloadUpload show ?thesis by simp
qed

text \<open>
  C7 as the claim states it fails: a job with only a video id does not proceed, it throws.
\<close>

theorem video_reference_counterexample:
  "snd (generateAudiobook envOk payloadVideo) =
     Inl (ErrorObj (js
       ''YouTube audio extraction requires yt-dlp. Please upload a voice sample directly for now.''))"
  using run_without_voice_sample [OF extractedText_envOk(2) voice_payloadVideo(1)] voice_payloadVideo(2)
  by simp

text \<open>
  C8 (as amended). When the model throws, the chunk throws the same and nothing is fetched.
  Otherwise exactly one URL is fetched, whatever the output of the model is: the output
  itself when it is a string, its \<open>url\<close> property when it is an object that has one, and
  \<open>String(output)\<close> in every other case, which for a byte array is its elements in decimal
  joined by commas. The audio of the chunk is the body of the response to that fetch; the
  chunk throws when \<open>fetch\<close> throws, when the response is not \<open>ok\<close>, and when reading the
  body throws. So a byte array is not returned as the audio: it is converted to a string
  and that string is fetched.
\<close>

theorem output_normalisation:
  "(replicateRun e i chunk url = Inl t \<longrightarrow>
      fst (synthesizeChunk e m url i chunk tr) = tr @ [ReplicateRun m chunk url] \<and>
      segmentAudio e url i chunk = Inl t) \<and>
   (replicateRun e i chunk url = Inr output \<longrightarrow>
      fst (synthesizeChunk e m url i chunk tr) =
        tr @ [ReplicateRun m chunk url, Fetch (audioUrlOf output)] \<and>
      segmentAudio e url i chunk =
        (case fetch e i (audioUrlOf output) of
           Inl t \<Rightarrow> Inl t
         | Inr res \<Rightarrow>
             if ok res then arrayBuffer res
             else Inl (ErrorObj (js ''Failed to download generated audio for chunk '' @ showNat (i + 1))))) \<and>
   audioUrlOf (JString u) = u \<and>
   (map_of props (js ''url'') = Some (JString u) \<longrightarrow> audioUrlOf (JObject props) = u) \<and>
   (map_of props (js ''url'') = Some v \<longrightarrow> audioUrlOf (JObject props) = jsToString v) \<and>
   (map_of props (js ''url'') = None \<longrightarrow> audioUrlOf (JObject props) = js ''[object Object]'') \<and>
   audioUrlOf (JBytes payload) = joinComma (map (\<lambda>b. showNat (unat b)) payload) \<and>
   audioUrlOf JNull = js ''null'' \<and>
   audioUrlOf JUndefined = js ''undefined''"
  by (auto simp: segmentAudio_def synthesizeChunk_def audioUrlOf_def Let_def split: sum.splits)

text \<open>
  A URL string and an object with a \<open>url\<close> yield the fetched body; the bytes \<open>RIFF\<close>
  are fetched as the URL \<open>82,73,70,70\<close>, which throws; a response that is not \<open>ok\<close>
  makes the chunk throw; when the model throws nothing is fetched.
\<close>

theorem output_normalisation_witness:
  "replicateRun envOk 0 (js ''End.'') (js ''v'') = Inr (JString (js ''https://replicate.test/out'')) \<and>
   fetch envOk 0 (js ''https://replicate.test/out'') = Inr \<lparr>ok = True, arrayBuffer = Inr [48]\<rparr> \<and>
   fst (synthesizeChunk envOk (js ''f5'') (js ''v'') 0 (js ''End.'') []) =
     [ReplicateRun (js ''f5'') (js ''End.'') (js ''v''), Fetch (js ''https://replicate.test/out'')] \<and>
   segmentAudio envOk (js ''v'') 0 (js ''End.'') = Inr [48] \<and>
   replicateRun envObject 0 (js ''End.'') (js ''v'') =
     Inr (JObject [(js ''url'', JString (js ''https://replicate.test/out''))]) \<and>
   fetch envObject 0 (js ''https://replicate.test/out'') = Inr \<lparr>ok = True, arrayBuffer = Inr [48]\<rparr> \<and>
   segmentAudio envObject (js ''v'') 0 (js ''End.'') = Inr [48] \<and>
   replicateRun envBytes 0 (js ''End.'') (js ''v'') = Inr (JBytes [0x52, 0x49, 0x46, 0x46]) \<and>
   fetch envBytes 0 (js ''82,73,70,70'') = Inl (ErrorObj (js ''Failed to parse URL from 82,73,70,70'')) \<and>
   fst (synthesizeChunk envBytes (js ''f5'') (js ''v'') 0 (js ''End.'') []) =
     [ReplicateRun (js ''f5'') (js ''End.'') (js ''v''), Fetch (js ''82,73,70,70'')] \<and>
   segmentAudio envBytes (js ''v'') 0 (js ''End.'') =
     Inl (ErrorObj (js ''Failed to parse URL from 82,73,70,70'')) \<and>
   fetch envNotOk 0 (js ''https://replicate.test/out'') = Inr \<lparr>ok = False, arrayBuffer = Inr []\<rparr> \<and>
   segmentAudio envNotOk (js ''v'') 0 (js ''End.'') =
     Inl (ErrorObj (js ''Failed to download generated audio for chunk 1'')) \<and>
   replicateRun envChunkFails 1 (js ''End.'') (js ''v'') = Inl (ErrorObj (js ''Prediction failed'')) \<and>
   fst (synthesizeChunk envChunkFails (js ''f5'') (js ''v'') 1 (js ''End.'') []) =
     [ReplicateRun (js ''f5'') (js ''End.'') (js ''v'')] \<and>
   segmentAudio envChunkFails (js ''v'') 1 (js ''End.'') = Inl (ErrorObj (js ''Prediction failed''))"
proof -
  have 1: "replicateRun envOk 0 (js ''End.'') (js ''v'') = Inr (JString (js ''https://replicate.test/out''))"
    "fetch envOk 0 (js ''https://replicate.test/out'') = Inr \<lparr>ok = True, arrayBuffer = Inr [48]\<rparr>"
    by (simp_all add: envOk_def)
  have 2: "replicateRun envObject 0 (js ''End.'') (js ''v'') =
     Inr (JObject [(js ''url'', JString (js ''https://replicate.test/out''))])"
    "fetch envObject 0 (js ''https://replicate.test/out'') = Inr \<lparr>ok = True, arrayBuffer = Inr [48]\<rparr>"
    "map_of [(js ''url'', JString (js ''https://replicate.test/out''))] (js ''url'') =
       Some (JString (js ''https://replicate.test/out''))"
    by (simp_all add: envOk_def envObject_def)
  have 3: "replicateRun envBytes 0 (js ''End.'') (js ''v'') = Inr (JBytes [0x52, 0x49, 0x46, 0x46])"
    by (simp add: envOk_def envBytes_def)
  have s: "joinComma (map (\<lambda>b. showNat (unat b)) [0x52, 0x49, 0x46, 0x46 :: 8 word]) = js ''82,73,70,70''"
    by (simp add: showNat.simps js_def)
  have 4: "fetch envBytes 0 (js ''82,73,70,70'') = Inl (ErrorObj (js ''Failed to parse URL from 82,73,70,70''))"
    by (simp add: envOk_def envBytes_def js_def)
  have 5: "replicateRun envNotOk 0 (js ''End.'') (js ''v'') = Inr (JString (js ''https://replicate.test/out''))"
    "fetch envNotOk 0 (js ''https://replicate.test/out'') = Inr \<lparr>ok = False, arrayBuffer = Inr []\<rparr>"
    by (simp_all add: envOk_def envNotOk_def)
  have 6: "replicateRun envChunkFails 1 (js ''End.'') (js ''v'') = Inl (ErrorObj (js ''Prediction failed''))"
    by (simp add: envOk_def envChunkFails_def)
  have n: "showNat (0 + 1) = js ''1''" by (simp add: showNat.simps js_def)
  note tha = output_normalisation [of envOk 0 "js ''End.''" "js ''v''" _ "js ''f5''" "[]"
      "JString (js ''https://replicate.test/out'')" "js ''https://replicate.test/out''"]
  from tha 1 have a: "fst (synthesizeChunk envOk (js ''f5'') (js ''v'') 0 (js ''End.'') []) =
     [ReplicateRun (js ''f5'') (js ''End.'') (js ''v''), Fetch (js ''https://replicate.test/out'')]"
    "segmentAudio envOk (js ''v'') 0 (js ''End.'') = Inr [48]"
    by simp_all
  note thb = output_normalisation [of envObject 0 "js ''End.''" "js ''v''" _ _ _
      "JObject [(js ''url'', JString (js ''https://replicate.test/out''))]"
      "js ''https://replicate.test/out''" "[(js ''url'', JString (js ''https://replicate.test/out''))]"]
  from thb 2 have b: "segmentAudio envObject (js ''v'') 0 (js ''End.'') = Inr [48]"
    by simp
  note thc = output_normalisation [of envBytes 0 "js ''End.''" "js ''v''" _ "js ''f5''" "[]"
      "JBytes [0x52, 0x49, 0x46, 0x46]" _ _ _ "[0x52, 0x49, 0x46, 0x46]"]
  from thc 3 have "audioUrlOf (JBytes [0x52, 0x49, 0x46, 0x46]) = js ''82,73,70,70''"
    by (simp only: s)
  with thc 3 4 have c: "fst (synthesizeChunk envBytes (js ''f5'') (js ''v'') 0 (js ''End.'') []) =
     [ReplicateRun (js ''f5'') (js ''End.'') (js ''v''), Fetch (js ''82,73,70,70'')]"
    "segmentAudio envBytes (js ''v'') 0 (js ''End.'') =
     Inl (ErrorObj (js ''Failed to parse URL from 82,73,70,70''))"
    by simp_all
  note thd = output_normalisation [of envNotOk 0 "js ''End.''" "js ''v''" _ _ _
      "JString (js ''https://replicate.test/out'')" "js ''https://replicate.test/out''"]
  from thd 5 n have d: "segmentAudio envNotOk (js ''v'') 0 (js ''End.'') =
     Inl (ErrorObj (js ''Failed to download generated audio for chunk 1''))"
    by (simp add: js_def)
  note the = output_normalisation [of envChunkFails 1 "js ''End.''" "js ''v''"
      "ErrorObj (js ''Prediction failed'')" "js ''f5''" "[]"]
  from the 6 have e: "fst (synthesizeChunk envChunkFails (js ''f5'') (js ''v'') 1 (js ''End.'') []) =
     [ReplicateRun (js ''f5'') (js ''End.'') (js ''v'')]"
    "segmentAudio envChunkFails (js ''v'') 1 (js ''End.'') = Inl (ErrorObj (js ''Prediction failed''))"
    by simp_all
  from 1 2 3 4 5 6 a b c d e show ?thesis by blast
qed

text \<open>
  C8 as the claim states it fails: a direct byte payload is not returned as the audio. It
  is taken for a URL, and the chunk fails.
\<close>

theorem byte_payload_counterexample:
  "replicateRun envBytes 0 (js ''End.'') (js ''https://storage.test/voices/v.wav'') =
     Inr (JBytes [0x52, 0x49, 0x46, 0x46]) \<and>
   segmentAudio envBytes (js ''https://storage.test/voices/v.wav'') 0 (js ''End.'') =
     Inl (ErrorObj (js ''Failed to parse URL from 82,73,70,70''))"
  by (simp add: segmentAudio_def synthesizeChunk_def audioUrlOf_def Let_def envBytes_def envOk_def
      showNat.simps js_def)



text \<open>
  C10. The chunker of the pdf-parse variant of the task and the chunker of the
  regex-extraction variant return the same segments for every text and \<open>maxChars\<close>.
\<close>

theorem splitTextRx_eq: "splitTextRx text maxChars = splitText text maxChars"
  by (simp add: splitTextRx_def splitText_def packSentencesRx_eq)

end
